theory Spec2Isabelle
  imports Main "HOL-Library.Sublist" "HOL-Library.Multiset" "HOL-Library.Char_ord"
    "HOL-Library.List_Lexorder" "HOL-Library.Product_Lexorder"
begin

section \<open>Rust compiler messages: the message model of \<^verbatim>\<open>rust/messages.py\<close>\<close>

text \<open>
  The development embeds the part of \<^verbatim>\<open>rust/messages.py\<close> that turns one JSON
  diagnostic of the Rust compiler into a primary message with a flat list of children
  (\<^verbatim>\<open>_collect_rust_messages\<close>, \<^verbatim>\<open>_create_cross_links\<close>), and the per-window store of
  messages with its insertion, sorting, listing and next/previous navigation.

  Python strings are modelled as \<open>string\<close>, Python integers as \<open>int\<close>, \<^verbatim>\<open>None\<close> as
  \<open>None\<close>. Functions of the Python library and of modules outside the embedded file
  (\<^verbatim>\<open>os.path\<close>, \<^verbatim>\<open>util.get_setting\<close>, the HTML templates) are parameters, collected in the
  record \<open>env\<close>.
\<close>

subsection \<open>Strings\<close>

text \<open>Python's \<^verbatim>\<open>needle in haystack\<close> on strings.\<close>

fun str_in :: "string \<Rightarrow> string \<Rightarrow> bool" where
  "str_in n [] = (n = [])"
| "str_in n (c # cs) = (prefix n (c # cs) \<or> str_in n cs)"

text \<open>Python's \<^verbatim>\<open>s.startswith(p)\<close>.\<close>

definition startswith :: "string \<Rightarrow> string \<Rightarrow> bool" where
  "startswith s p = prefix p s"

text \<open>Python's \<^verbatim>\<open>'%s' % n\<close> for an integer: decimal digits, with a minus sign.\<close>

fun str_nat :: "nat \<Rightarrow> string" where
  "str_nat n =
     (if n < 10 then [''0123456789'' ! n]
      else str_nat (n div 10) @ [''0123456789'' ! (n mod 10)])"

declare str_nat.simps [simp del]

definition str_int :: "int \<Rightarrow> string" where
  "str_int i = (if i < 0 then CHR ''-'' # str_nat (nat (- i)) else str_nat (nat i))"

text \<open>The truth value Python gives an optional string: \<^verbatim>\<open>None\<close> and \<^verbatim>\<open>''\<close> are false.\<close>

definition truthy :: "string option \<Rightarrow> bool" where
  "truthy s = (case s of None \<Rightarrow> False | Some t \<Rightarrow> t \<noteq> [])"

subsection \<open>The JSON diagnostic\<close>

text \<open>
  A span of the compiler's JSON, with the keys the docstring of
  \<^verbatim>\<open>_collect_rust_messages\<close> lists. \<open>line_start\<close> is optional because the code itself
  builds spans without it (\<^verbatim>\<open>fake_span\<close>) and resets it to \<^verbatim>\<open>None\<close>; \<open>src_text\<close> holds the
  \<^verbatim>\<open>'text'\<close> strings of the key \<^verbatim>\<open>'text'\<close>.
\<close>

datatype span = Span
    (file_name: string)
    (line_start: "int option")
    (line_end: int)
    (column_start: int)
    (column_end: int)
    (is_primary: bool)
    (src_text: "string list")
    (label: "string option")
    (suggested_replacement: "string option")
    (expansion: "expansion option")
  and expansion = Expansion
    (exp_span: span)
    (macro_decl_name: string)
    (def_site_span: "span option")

text \<open>Assignments to keys of a span dictionary.\<close>

fun set_file_name :: "string \<Rightarrow> span \<Rightarrow> span" where
  "set_file_name f (Span _ ls le cs ce p t l r e) = Span f ls le cs ce p t l r e"

fun set_line_start :: "int option \<Rightarrow> span \<Rightarrow> span" where
  "set_line_start ls (Span f _ le cs ce p t l r e) = Span f ls le cs ce p t l r e"

fun set_is_primary :: "bool \<Rightarrow> span \<Rightarrow> span" where
  "set_is_primary p (Span f ls le cs ce _ t l r e) = Span f ls le cs ce p t l r e"

fun set_label :: "string option \<Rightarrow> span \<Rightarrow> span" where
  "set_label l (Span f ls le cs ce p t _ r e) = Span f ls le cs ce p t l r e"

fun set_suggested_replacement :: "string option \<Rightarrow> span \<Rightarrow> span" where
  "set_suggested_replacement r (Span f ls le cs ce p t l _ e) = Span f ls le cs ce p t l r e"

text \<open>
  One diagnostic: \<^verbatim>\<open>message\<close>, \<^verbatim>\<open>level\<close>, \<^verbatim>\<open>code\<close> (a code with its optional explanation),
  \<^verbatim>\<open>spans\<close> and \<^verbatim>\<open>children\<close>.
\<close>

datatype info = Info
    (info_message: string)
    (info_level: string)
    (info_code: "(string \<times> string option) option")
    (info_spans: "span list")
    (info_children: "info list")

subsection \<open>Messages\<close>

type_synonym region = "(int \<times> int) \<times> (int \<times> int)"

text \<open>
  One object of class \<^verbatim>\<open>Message\<close>. \<open>msg_id\<close> stands for the \<^verbatim>\<open>uuid4\<close> of the object: a
  number drawn from a counter, so that two objects never share it; \<open>msg_text\<close> is the
  attribute \<^verbatim>\<open>text\<close>. \<open>parent\<close> holds the
  identifier of the parent object. The list \<^verbatim>\<open>children\<close> of the primary message is kept
  beside the message (in \<open>build\<close> and \<open>tree\<close> below): children have no children.
\<close>

record message =
  msg_id :: nat
  region_key :: "string option"
  msg_text :: "string option"
  minihtml_text :: "string option"
  level :: "string option"
  span :: "region option"
  path :: "string option"
  code :: "string option"
  back_link :: "string option"
  primary :: bool
  parent :: "nat option"
  hidden :: bool

definition Message :: "nat \<Rightarrow> message" where
  "Message uid = \<lparr>msg_id = uid, region_key = None, msg_text = None, minihtml_text = None,
     level = None, span = None, path = None, code = None, back_link = None,
     primary = True, parent = None, hidden = False\<rparr>"

definition lineno :: "message \<Rightarrow> int" where
  "lineno m = (case span m of Some r \<Rightarrow> fst (fst r) | None \<Rightarrow> 999999999)"

definition is_similar :: "message \<Rightarrow> message \<Rightarrow> bool" where
  "is_similar m other =
     (path other = path m \<and> span other = span m \<and> level other = level m \<and> msg_text other = msg_text m)"

subsection \<open>The environment\<close>

text \<open>
  \<open>realpath_join f\<close> is \<^verbatim>\<open>os.path.realpath(os.path.join(base_path, f))\<close>, \<open>basename\<close> is
  \<^verbatim>\<open>os.path.basename\<close>, \<open>hide_warnings\<close> and \<open>sort_messages\<close> are the settings
  \<^verbatim>\<open>rust_syntax_hide_warnings\<close> and \<^verbatim>\<open>rust_sort_messages\<close>. \<open>replacement_html i r\<close> is the
  markup of the "Accept Replacement" link for the message \<open>i\<close> and the replacement \<open>r\<close>,
  \<open>link_html url filename lineno\<close> the markup of a link to a far-away child
  (\<^verbatim>\<open>link_template.format\<close>), \<open>escape_and_link indent txt\<close> the escaped text of a message with
  its URLs made links, and \<open>relative_path\<close> is \<^verbatim>\<open>_relative_path(window, _)\<close>.
\<close>

record env =
  realpath_join :: "string \<Rightarrow> string"
  basename :: "string \<Rightarrow> string"
  hide_warnings :: bool
  sort_messages :: bool
  replacement_html :: "nat \<Rightarrow> string \<Rightarrow> string"
  link_html :: "string \<Rightarrow> string \<Rightarrow> string \<Rightarrow> string"
  escape_and_link :: "string \<Rightarrow> string \<Rightarrow> string"
  relative_path :: "string \<Rightarrow> string"

subsection \<open>Collecting the messages of one diagnostic\<close>

text \<open>
  The state \<^verbatim>\<open>_collect_rust_messages\<close> works on: the primary \<^verbatim>\<open>Message\<close> object it fills
  (\<open>msg\<close>) with its list \<open>children\<close>, the counter of identifiers, and the messages handed
  to the callback \<^verbatim>\<open>msg_cb\<close> so far.
\<close>

record build =
  msg :: message
  children :: "message list"
  next_id :: nat
  delivered :: "message list"

definition make_span_path :: "env \<Rightarrow> span \<Rightarrow> string" where
  "make_span_path ev sp = realpath_join ev (file_name sp)"

definition make_span_region :: "span \<Rightarrow> region option" where
  "make_span_region sp =
     (case line_start sp of
        None \<Rightarrow> None
      | Some l \<Rightarrow> if l = 0 then None
                  else Some ((l - 1, column_start sp - 1), (line_end sp - 1, column_end sp - 1)))"

text \<open>
  \<^verbatim>\<open>set_primary_message\<close> also stores the span in \<^verbatim>\<open>parent_info\<close>: the result is the new
  \<^verbatim>\<open>parent_info['span']\<close> with the new state.
\<close>

definition set_primary_message ::
  "env \<Rightarrow> info \<Rightarrow> span \<Rightarrow> string \<Rightarrow> build \<Rightarrow> span option \<times> build" where
  "set_primary_message ev dia sp txt b =
     (let m = msg b;
          m1 = (case info_code dia of
                  Some (c, expl) \<Rightarrow> if truthy expl then m\<lparr>code := Some c\<rparr> else m
                | None \<Rightarrow> m)
      in (Some sp,
          b\<lparr>msg := m1\<lparr>path := Some (make_span_path ev sp), span := make_span_region sp,
                       msg_text := Some txt, level := Some (info_level dia)\<rparr>\<rparr>))"

text \<open>The child that \<^verbatim>\<open>add_additional\<close> creates, and \<^verbatim>\<open>add_additional\<close> itself.\<close>

definition new_child :: "env \<Rightarrow> build \<Rightarrow> span \<Rightarrow> string option \<Rightarrow> string \<Rightarrow> message" where
  "new_child ev b sp txt lvl =
     (Message (next_id b))\<lparr>path := Some (make_span_path ev sp), span := make_span_region sp,
        msg_text := txt, level := Some lvl, primary := False, parent := Some (msg_id (msg b))\<rparr>"

definition add_additional :: "env \<Rightarrow> span \<Rightarrow> string option \<Rightarrow> string \<Rightarrow> build \<Rightarrow> build" where
  "add_additional ev sp txt lvl b =
     b\<lparr>children := children b @ [new_child ev b sp txt lvl], next_id := Suc (next_id b)\<rparr>"

fun find_span_r :: "span \<Rightarrow> expansion option \<Rightarrow> span \<times> expansion option" where
  "find_span_r (Span f ls le cs ce p t l r (Some (Expansion s n d))) ex =
     find_span_r s (Some (Expansion s n d))"
| "find_span_r (Span f ls le cs ce p t l r None) ex = (Span f ls le cs ce p t l r None, ex)"

text \<open>
  Lines 973--980 of the loop over the spans: the root of the chain of expansions, with
  the flags and texts of the span the loop is at. (The test \<^verbatim>\<open>if not target_span\<close> never
  fires: a span dictionary has keys.)
\<close>

definition resolve_macro_span :: "span \<Rightarrow> span \<times> expansion option" where
  "resolve_macro_span sp =
     (let (target_span, ex) = find_span_r sp None
      in (set_suggested_replacement (suggested_replacement sp)
            (set_label (label sp) (set_is_primary (is_primary sp) target_span)), ex))"

text \<open>
  Lines 967--1003: what the loop does with a span whose file is a macro of the form
  \<^verbatim>\<open><name macros>\<close>. The result is the span the rest of the loop body works with.
\<close>

definition macro_step :: "env \<Rightarrow> string option \<Rightarrow> info \<Rightarrow> span \<Rightarrow> build \<Rightarrow> span \<times> build" where
  "macro_step ev target_path dia sp0 b =
     (if str_in ''macros>'' (file_name sp0) then
        (let (sp, ex) = resolve_macro_span sp0 in
         if str_in ''macros>'' (file_name sp) then
           (let macro_name = file_name sp;
                sp1 = (case target_path of
                         Some t \<Rightarrow> if t \<noteq> [] then set_line_start None (set_file_name t sp) else sp
                       | None \<Rightarrow> sp);
                b1 = add_additional ev sp1
                       (Some (''Errors occurred in macro '' @ macro_name @ '' from external crate''))
                       (info_level dia) b;
                b2 = add_additional ev sp1 (Some (''Macro text: '' @ concat (src_text sp1)))
                       (info_level dia) b1
            in (sp1, b2))
         else if (case ex of
                    None \<Rightarrow> True
                  | Some e \<Rightarrow> (case def_site_span e of
                                None \<Rightarrow> True
                              | Some d \<Rightarrow> str_in ''macros>'' (file_name d)))
         then (sp, add_additional ev sp
                     (Some ''this error originates in a macro outside of the current crate'')
                     (info_level dia) b)
         else (sp, b))
      else (sp0, b))"

text \<open>Lines 1007--1011: the message at the site where a local macro is invoked.\<close>

definition invoke_step :: "env \<Rightarrow> span \<Rightarrow> build \<Rightarrow> build" where
  "invoke_step ev sp b =
     (case expansion sp of
        Some e \<Rightarrow>
          if \<not> str_in ''macros>'' (file_name sp) \<and> \<not> startswith (macro_decl_name e) ''#[''
          then add_additional ev (fst (find_span_r sp None)) (Some ''in this macro invocation'')
                 ''help'' b
          else b
      | None \<Rightarrow> b)"

text \<open>Lines 1013--1022: a primary span. \<open>pinfo\<close> is \<^verbatim>\<open>parent_info\<close>, empty or with its span.\<close>

definition primary_step ::
  "env \<Rightarrow> info \<Rightarrow> span \<Rightarrow> span option \<times> build \<Rightarrow> span option \<times> build" where
  "primary_step ev dia sp st =
     (let (pinfo, b) = st in
      if is_primary sp then
        (case pinfo of
           Some _ \<Rightarrow> (pinfo, add_additional ev sp (Some (info_message dia)) (info_level dia) b)
         | None \<Rightarrow> if \<not> truthy (path (msg b))
                   then set_primary_message ev dia sp (info_message dia) b
                   else (pinfo, b))
      else (pinfo, b))"

text \<open>Lines 1024--1035: the label of the span.\<close>

definition label_step :: "env \<Rightarrow> info \<Rightarrow> span \<Rightarrow> build \<Rightarrow> build" where
  "label_step ev dia sp b =
     (case label sp of
        Some l \<Rightarrow> add_additional ev sp (Some l) (info_level dia) b
      | None \<Rightarrow> b)"

text \<open>Lines 1036--1050: the suggested replacement, a child with markup and no text.\<close>

definition replacement_step :: "env \<Rightarrow> span \<Rightarrow> build \<Rightarrow> build" where
  "replacement_step ev sp b =
     (case suggested_replacement sp of
        Some r \<Rightarrow>
          if r \<noteq> []
          then b\<lparr>children := children b @
                   [(new_child ev b sp None ''help'')
                      \<lparr>minihtml_text := Some (replacement_html ev (next_id b) r)\<rparr>],
                 next_id := Suc (next_id b)\<rparr>
          else b
      | None \<Rightarrow> b)"

text \<open>The body of the loop \<^verbatim>\<open>for span in info['spans']\<close>.\<close>

definition collect_span ::
  "env \<Rightarrow> string option \<Rightarrow> info \<Rightarrow> span option \<times> build \<Rightarrow> span \<Rightarrow> span option \<times> build" where
  "collect_span ev target_path dia st sp0 =
     (let (pinfo, b) = st;
          (sp, b1) = macro_step ev target_path dia sp0 b;
          b2 = invoke_step ev sp b1;
          (pinfo', b3) = primary_step ev dia sp (pinfo, b2);
          b4 = label_step ev dia sp b3
      in (pinfo', replacement_step ev sp b4))"

text \<open>
  Lines 934--958: a diagnostic without spans. \<open>has_cb\<close> tells whether a callback
  \<^verbatim>\<open>msg_cb\<close> was given; the messages it receives are appended to \<open>delivered\<close>.
\<close>

definition fake_span :: "string \<Rightarrow> span" where
  "fake_span target_path = Span target_path None 0 0 0 False [] None None None"

definition no_spans_step ::
  "env \<Rightarrow> string option \<Rightarrow> bool \<Rightarrow> info \<Rightarrow> span option \<times> build \<Rightarrow> span option \<times> build" where
  "no_spans_step ev target_path has_cb dia st =
     (let (pinfo, b) = st in
      case pinfo of
        Some ps \<Rightarrow> (pinfo, add_additional ev ps (Some (info_message dia)) (info_level dia) b)
      | None \<Rightarrow>
          (let imsg = info_message dia in
           if \<not> (startswith imsg ''aborting due to'' \<or> startswith imsg ''cannot continue'')
           then (case target_path of
                   Some t \<Rightarrow>
                     if t \<noteq> [] then set_primary_message ev dia (fake_span t) imsg b
                     else if has_cb
                     then (pinfo, b\<lparr>delivered := delivered b @
                              [(Message (next_id b))\<lparr>level := Some (info_level dia),
                                 msg_text := Some imsg\<rparr>],
                            next_id := Suc (next_id b)\<rparr>)
                     else (pinfo, b)
                 | None \<Rightarrow>
                     if has_cb
                     then (pinfo, b\<lparr>delivered := delivered b @
                              [(Message (next_id b))\<lparr>level := Some (info_level dia),
                                 msg_text := Some imsg\<rparr>],
                            next_id := Suc (next_id b)\<rparr>)
                     else (pinfo, b))
           else (pinfo, b)))"

text \<open>
  \<^verbatim>\<open>_collect_rust_messages\<close>. Each child diagnostic works on a copy of \<^verbatim>\<open>parent_info\<close>,
  so what a child stores there is lost when it returns.
\<close>

fun collect_rust_messages ::
  "env \<Rightarrow> string option \<Rightarrow> bool \<Rightarrow> info \<Rightarrow> span option \<Rightarrow> build \<Rightarrow> build" where
  "collect_rust_messages ev target_path has_cb (Info m l c spans chs) pinfo b =
     (if l \<noteq> ''error'' \<and> hide_warnings ev \<and> pinfo = None then b
      else
        (let dia = Info m l c spans chs;
             st1 = (if spans = [] then no_spans_step ev target_path has_cb dia (pinfo, b)
                    else (pinfo, b));
             st2 = foldl (collect_span ev target_path dia) st1 spans
         in foldl (\<lambda>acc ch. collect_rust_messages ev target_path has_cb ch (fst st2) acc)
              (snd st2) chs))"

declare collect_rust_messages.simps [simp del]

subsection \<open>Links between a message and its far-away children\<close>

text \<open>
  Errors of Python are values: a function that can raise returns an \<open>option\<close>, and
  \<open>None\<close> stands for the exception (here the \<^verbatim>\<open>AttributeError\<close> or \<^verbatim>\<open>TypeError\<close> of a
  message without a path).
\<close>

definition make_file_path :: "message \<Rightarrow> string option" where
  "make_file_path m =
     (case span m of
        Some r \<Rightarrow>
          (case path m of
             None \<Rightarrow> None
           | Some p \<Rightarrow>
               Some (''file:///'' @ map (\<lambda>c. if c = CHR 0x5C then CHR ''/'' else c) p @ '':'' @
                     str_int (fst (fst r) + 1) @ '':'' @ str_int (snd (fst r) + 1)))
      | None \<Rightarrow>
          Some (''file:///'' @ (case path m of None \<Rightarrow> ''None'' | Some p \<Rightarrow> p) @
                '':999999999''))"

text \<open>The arrows of the links, in UTF-8.\<close>

definition left_arrow :: string where
  "left_arrow = [CHR 0xE2, CHR 0x86, CHR 0x90]"

definition up_arrow :: string where
  "up_arrow = [CHR 0xE2, CHR 0x86, CHR 0x91]"

definition down_arrow :: string where
  "down_arrow = [CHR 0xE2, CHR 0x86, CHR 0x93]"

definition back_link_html :: "string \<Rightarrow> string" where
  \<open>back_link_html url = ''<a href="'' @ url @ ''">'' @ left_arrow @ ''</a>''\<close>

text \<open>
  The test of \<^verbatim>\<open>_create_cross_links\<close> for a child that is not close to the primary message
  \<open>pm\<close> (another file, or more than 5 lines away), and the key \<^verbatim>\<open>seen_key\<close> of a child.
\<close>

definition far_away :: "message \<Rightarrow> message \<Rightarrow> bool" where
  "far_away pm child = (path child \<noteq> path pm \<or> abs (lineno child - lineno pm) > 5)"

definition link_key :: "message \<Rightarrow> string option \<times> int" where
  "link_key child = (path child, lineno child)"

text \<open>
  The loop over the children of \<^verbatim>\<open>_create_cross_links\<close>: the children (some with their
  \<^verbatim>\<open>back_link\<close> set) and the list \<^verbatim>\<open>links\<close>. \<open>pm\<close> is the primary message, \<open>bl\<close> the
  markup of the link back to it.
\<close>

fun cross_link_loop ::
  "env \<Rightarrow> message \<Rightarrow> string \<Rightarrow> message list \<Rightarrow> (string option \<times> int) set \<Rightarrow>
     (message list \<times> string list) option" where
  "cross_link_loop ev pm bl [] link_set = Some ([], [])"
| "cross_link_loop ev pm bl (child # rest) link_set =
     (let child_lineno = lineno child;
          seen_key = link_key child
      in if far_away pm child then
           if seen_key \<in> link_set then
             map_option (\<lambda>(cs, ls). (child # cs, ls)) (cross_link_loop ev pm bl rest link_set)
           else
             (let lineno_text = (if span child \<noteq> None then '':'' @ str_int (child_lineno + 1)
                                 else [])
              in case (if path child = path pm
                       then Some (if child_lineno < lineno pm then up_arrow else down_arrow)
                       else map_option (basename ev) (path child)) of
                   None \<Rightarrow> None
                 | Some filename \<Rightarrow>
                     (case make_file_path child of
                        None \<Rightarrow> None
                      | Some url \<Rightarrow>
                          map_option
                            (\<lambda>(cs, ls). (child\<lparr>back_link := Some bl\<rparr> # cs,
                                         link_html ev url filename lineno_text # ls))
                            (cross_link_loop ev pm bl rest (insert seen_key link_set))))
         else map_option (\<lambda>(cs, ls). (child # cs, ls)) (cross_link_loop ev pm bl rest link_set))"

text \<open>The message \<^verbatim>\<open>_create_cross_links\<close> adds for one link text, and the loop adding them.\<close>

definition new_link :: "build \<Rightarrow> string \<Rightarrow> message" where
  "new_link b link_text =
     (Message (next_id b))\<lparr>path := path (msg b), span := span (msg b), level := level (msg b),
        primary := False, parent := Some (msg_id (msg b)), minihtml_text := Some link_text\<rparr>"

fun add_links :: "build \<Rightarrow> string list \<Rightarrow> build" where
  "add_links b [] = b"
| "add_links b (link_text # ls) =
     add_links (b\<lparr>children := children b @ [new_link b link_text],
                  next_id := Suc (next_id b)\<rparr>) ls"

definition create_cross_links :: "env \<Rightarrow> build \<Rightarrow> build option" where
  "create_cross_links ev b =
     (case make_file_path (msg b) of
        None \<Rightarrow> None
      | Some url \<Rightarrow>
          (case cross_link_loop ev (msg b) (back_link_html url) (children b) {} of
             None \<Rightarrow> None
           | Some (cs, links) \<Rightarrow> Some (add_links (b\<lparr>children := cs\<rparr>) links)))"

subsection \<open>The markup of the messages\<close>

definition level_class :: "string \<Rightarrow> string" where
  "level_class l =
     (if l = ''error'' then ''rust-error'' else if l = ''warning'' then ''rust-warning''
      else if l = ''note'' then ''rust-note'' else if l = ''help'' then ''rust-help''
      else ''rust-error'')"

definition help_link_html :: "message \<Rightarrow> string" where
  \<open>help_link_html pm =
     (case code pm of
        None \<Rightarrow> []
      | Some c \<Rightarrow> if c = [] then []
                  else '' <a href="https://doc.rust-lang.org/error-index.html#'' @ c @ ''">?</a>'')\<close>

definition close_link_html :: string where
  \<open>close_link_html = ''<a href="hide">'' @ [CHR 0xC3, CHR 0x97] @ ''</a>''\<close>

definition content_html ::
  "string \<Rightarrow> string \<Rightarrow> string \<Rightarrow> string \<Rightarrow> string \<Rightarrow> string \<Rightarrow> string" where
  \<open>content_html cls lvl txt help_link bl close_link =
     ''<div class="'' @ cls @ ''">'' @ lvl @ txt @ help_link @ bl @ close_link @ ''</div>''\<close>

text \<open>
  The loop of \<^verbatim>\<open>_create_minihtml\<close> over the message and its children, with \<^verbatim>\<open>last_level\<close>
  and \<^verbatim>\<open>last_path\<close>. A message with a text and without a level raises (\<^verbatim>\<open>len(None)\<close>).
\<close>

fun minihtml_loop ::
  "env \<Rightarrow> string \<Rightarrow> string option \<Rightarrow> string option \<Rightarrow> message list \<Rightarrow> message list option" where
  "minihtml_loop ev help_link last_level last_path [] = Some []"
| "minihtml_loop ev help_link last_level last_path (m # ms) =
     (if truthy (minihtml_text m) \<or> \<not> truthy (msg_text m)
      then map_option ((#) m) (minihtml_loop ev help_link last_level last_path ms)
      else
        (case level m of
           None \<Rightarrow> None
         | Some l \<Rightarrow>
             (let indent = concat (replicate (length l + 2) ''&nbsp;'');
                  level_text = (if level m = last_level \<and> path m = last_path then indent
                                else l @ '': '');
                  close_link = (if primary m then close_link_html else []);
                  escaped_text = escape_and_link ev indent (the (msg_text m));
                  m' = m\<lparr>minihtml_text :=
                          Some (content_html (level_class l) level_text escaped_text help_link
                                  (case back_link m of None \<Rightarrow> [] | Some k \<Rightarrow> k) close_link)\<rparr>
              in map_option ((#) m') (minihtml_loop ev help_link (level m) (path m) ms))))"

definition create_minihtml :: "env \<Rightarrow> build \<Rightarrow> build option" where
  "create_minihtml ev b =
     (case minihtml_loop ev (help_link_html (msg b)) None None (msg b # children b) of
        Some (m # cs) \<Rightarrow> Some (b\<lparr>msg := m, children := cs\<rparr>)
      | _ \<Rightarrow> None)"

subsection \<open>The messages of a window\<close>

text \<open>
  The entry of one window in \<^verbatim>\<open>WINDOW_MESSAGES\<close>. \<open>paths\<close> is the \<^verbatim>\<open>OrderedDict\<close> from a path
  to its messages, in the order of the keys. \<open>msg_index\<close> is \<open>None\<close> for the pair
  \<^verbatim>\<open>(-1, -1)\<close>, the only pair with a negative component the code ever stores. A window
  without an entry (\<^verbatim>\<open>KeyError\<close>) is \<open>None\<close> of type \<open>win_info option\<close>.
\<close>

record win_info =
  paths :: "(string \<times> message list) list"
  msg_index :: "(nat \<times> nat) option"

text \<open>\<^verbatim>\<open>d.get(path, [])\<close> and \<^verbatim>\<open>d.setdefault(path, []).append(message)\<close> on the dictionary.\<close>

definition messages_at :: "(string \<times> message list) list \<Rightarrow> string \<Rightarrow> message list" where
  "messages_at ps p = (case map_of ps p of Some ms \<Rightarrow> ms | None \<Rightarrow> [])"

fun setdefault_append ::
  "string \<Rightarrow> message \<Rightarrow> (string \<times> message list) list \<Rightarrow> (string \<times> message list) list" where
  "setdefault_append p m [] = [(p, [m])]"
| "setdefault_append p m ((k, v) # kvs) =
     (if k = p then (k, v @ [m]) # kvs else (k, v) # setdefault_append p m kvs)"

text \<open>
  The state \<^verbatim>\<open>add_message\<close> and \<^verbatim>\<open>add_rust_messages\<close> work on: the entry of the window, the
  counter of identifiers and the messages the callback received.
\<close>

record state =
  window :: "win_info option"
  uuid :: nat
  cb_log :: "message list"

definition add_message :: "bool \<Rightarrow> message \<Rightarrow> state \<Rightarrow> state option" where
  "add_message has_cb m st =
     (case path m of
        None \<Rightarrow> None
      | Some p \<Rightarrow>
          if str_in ''macros>'' p then Some st
          else
            (let wi = (case window st of
                         Some wi \<Rightarrow> wi
                       | None \<Rightarrow> \<lparr>paths = [], msg_index = None\<rparr>);
                 messages = messages_at (paths wi) p
             in if \<exists>other \<in> set messages. is_similar m other then Some st
                else
                  (let m' = m\<lparr>region_key := Some (''rust-'' @ str_nat (Suc (length messages)))\<rparr>
                   in Some (st\<lparr>window := Some (wi\<lparr>paths := setdefault_append p m' (paths wi)\<rparr>),
                               cb_log := (if has_cb then cb_log st @ [m'] else cb_log st)\<rparr>))))"

fun add_messages :: "bool \<Rightarrow> message list \<Rightarrow> state \<Rightarrow> state option" where
  "add_messages has_cb [] st = Some st"
| "add_messages has_cb (m # ms) st =
     (case add_message has_cb m st of None \<Rightarrow> None | Some st' \<Rightarrow> add_messages has_cb ms st')"

text \<open>The number of messages stored for a window.\<close>

definition message_count :: "win_info option \<Rightarrow> nat" where
  "message_count w =
     (case w of None \<Rightarrow> 0 | Some wi \<Rightarrow> sum_list (map (\<lambda>(p, msgs). length msgs) (paths wi)))"

text \<open>
  A line of JSON: a diagnostic of \<^verbatim>\<open>rustc\<close>, or an object of \<^verbatim>\<open>cargo\<close> with its \<^verbatim>\<open>reason\<close> and
  (for a compiler message) its \<^verbatim>\<open>message\<close>.
\<close>

datatype json_line = Rustc info | Cargo string "info option"

definition add_rust_messages ::
  "env \<Rightarrow> json_line \<Rightarrow> string option \<Rightarrow> bool \<Rightarrow> state \<Rightarrow> state option" where
  "add_rust_messages ev line target_path has_cb st =
     (case (case line of
              Rustc i \<Rightarrow> Some (Some i)
            | Cargo reason i \<Rightarrow> if reason = ''compiler-message'' then map_option Some i
                                else Some None) of
        None \<Rightarrow> None
      | Some None \<Rightarrow> Some st
      | Some (Some dia) \<Rightarrow>
          (let b0 = \<lparr>msg = Message (uuid st), children = [], next_id = Suc (uuid st),
                     delivered = cb_log st\<rparr>;
               b1 = collect_rust_messages ev target_path has_cb dia None b0
           in if \<not> truthy (path (msg b1))
              then Some (st\<lparr>uuid := next_id b1, cb_log := delivered b1\<rparr>)
              else
                (case create_cross_links ev b1 of
                   None \<Rightarrow> None
                 | Some b2 \<Rightarrow>
                     (case create_minihtml ev b2 of
                        None \<Rightarrow> None
                      | Some b3 \<Rightarrow>
                          add_messages has_cb (msg b3 # children b3)
                            (st\<lparr>uuid := next_id b3, cb_log := delivered b3\<rparr>)))))"

subsection \<open>Sorting\<close>

definition level_rank :: "message \<Rightarrow> int" where
  "level_rank m =
     (if level m = Some ''error'' then 0 else if level m = Some ''warning'' then 1
      else if level m = Some ''note'' then 2 else if level m = Some ''help'' then 3 else 0)"

text \<open>
  The list \<^verbatim>\<open>items\<close> of \<^verbatim>\<open>_sort_messages\<close>, the key \<^verbatim>\<open>x[:3]\<close> of an item, and the dictionary
  built from the sorted items. Python's \<^verbatim>\<open>list.sort\<close> is stable, as \<open>sort_key\<close> is; tuples
  and strings are compared lexicographically.
\<close>

type_synonym item = "int \<times> string \<times> int \<times> message"

definition sort_items :: "(string \<times> message list) list \<Rightarrow> item list" where
  "sort_items ps =
     concat (map (\<lambda>(p, messages). map (\<lambda>m. (level_rank m, p, lineno m, m)) messages) ps)"

definition item_key :: "item \<Rightarrow> int \<times> string \<times> int" where
  "item_key x = (case x of (l, p, n, m) \<Rightarrow> (l, p, n))"

definition regroup :: "item list \<Rightarrow> (string \<times> message list) list" where
  "regroup items = foldl (\<lambda>d x. case x of (l, p, n, m) \<Rightarrow> setdefault_append p m d) [] items"

definition sort_messages_of :: "env \<Rightarrow> win_info option \<Rightarrow> win_info option" where
  "sort_messages_of ev w =
     (if \<not> sort_messages ev then w
      else case w of
             None \<Rightarrow> None
           | Some wi \<Rightarrow> Some (wi\<lparr>paths := regroup (sort_key item_key (sort_items (paths wi)))\<rparr>))"

subsection \<open>Next and previous message\<close>

definition is_matching_level :: "string \<Rightarrow> message \<Rightarrow> bool" where
  "is_matching_level levels m =
     (if \<not> primary m then False
      else if levels = ''all'' then True
      else if levels = ''error'' \<and> level m = Some ''error'' then True
      else if levels = ''warning'' \<and> level m \<noteq> Some ''error'' then True
      else False)"

text \<open>
  The two nested \<^verbatim>\<open>while\<close> loops of \<^verbatim>\<open>_advance_next_message\<close>, from the indices
  \<open>path_idx\<close> and \<open>msg_idx\<close>: the index of the first matching message, or \<open>None\<close> when
  the loops run off the end.
\<close>

function next_scan ::
  "(string \<times> message list) list \<Rightarrow> string \<Rightarrow> nat \<Rightarrow> nat \<Rightarrow> (nat \<times> nat) option" where
  "next_scan ps levels path_idx msg_idx =
     (if path_idx < length ps then
        (let messages = snd (ps ! path_idx) in
         if msg_idx < length messages then
           (if is_matching_level levels (messages ! msg_idx) then Some (path_idx, msg_idx)
            else next_scan ps levels path_idx (Suc msg_idx))
         else next_scan ps levels (Suc path_idx) 0)
      else None)"
  by pat_completeness auto
termination
  by (relation "(\<lambda>(ps, levels, p, m). length ps - p) <*mlex*>
                measure (\<lambda>(ps, levels, p, m). length (snd (ps ! p)) - m)")
     (auto simp: wf_mlex mlex_less mlex_leq)

declare next_scan.simps [simp del]

text \<open>
  \<^verbatim>\<open>_advance_next_message\<close>: the index it returns and the new entry of the window. With
  \<open>wrap_around\<close> false, a scan without a match resets the index and runs the function once
  more with \<open>wrap_around\<close> true.
\<close>

function advance_next_message ::
  "string \<Rightarrow> bool \<Rightarrow> win_info option \<Rightarrow> (nat \<times> nat) option \<times> win_info option" where
  "advance_next_message levels wrap_around w =
     (case w of
        None \<Rightarrow> (None, None)
      | Some wi \<Rightarrow>
          (case (case msg_index wi of
                   None \<Rightarrow> next_scan (paths wi) levels 0 0
                 | Some (path_idx, msg_idx) \<Rightarrow> next_scan (paths wi) levels path_idx (Suc msg_idx)) of
             Some current_idx \<Rightarrow> (Some current_idx, Some (wi\<lparr>msg_index := Some current_idx\<rparr>))
           | None \<Rightarrow>
               if wrap_around then (None, Some wi)
               else advance_next_message levels True (Some (wi\<lparr>msg_index := None\<rparr>))))"
  by pat_completeness auto
termination
  by (relation "measure (\<lambda>(levels, wrap_around, w). if wrap_around then 0 else 1)") auto

declare advance_next_message.simps [simp del]

definition show_next_message :: "string \<Rightarrow> win_info option \<Rightarrow> (nat \<times> nat) option \<times> win_info option" where
  "show_next_message levels w = advance_next_message levels False w"

subsection \<open>The list of all messages\<close>

text \<open>
  \<^verbatim>\<open>list_messages\<close>: the items of the quick panel (text and label of the path) with the
  index \<^verbatim>\<open>jump_to\<close> of each; \<open>None\<close> when the window has no entry ("No messages available").
\<close>

definition path_label :: "env \<Rightarrow> string \<Rightarrow> message \<Rightarrow> string" where
  "path_label ev p m =
     (case span m of
        Some r \<Rightarrow> relative_path ev p @ '':'' @ str_int (fst (fst r) + 1)
      | None \<Rightarrow> relative_path ev p)"

definition list_messages ::
  "env \<Rightarrow> win_info option \<Rightarrow> ((string option \<times> string) \<times> (nat \<times> nat)) list option" where
  "list_messages ev w =
     (case w of
        None \<Rightarrow> None
      | Some wi \<Rightarrow>
          Some (concat (map (\<lambda>(path_idx, (p, msgs)).
                   concat (map (\<lambda>(msg_idx, m).
                             if \<not> primary m then []
                             else [((msg_text m, path_label ev p m), (path_idx, msg_idx))])
                           (enumerate 0 msgs)))
                 (enumerate 0 (paths wi)))))"

subsection \<open>Dismissing a message\<close>

text \<open>
  \<^verbatim>\<open>Message.dismiss\<close> sets \<^verbatim>\<open>hidden\<close> on the primary message of the message and on the
  children of that primary message. The objects are shared with the lists of the window;
  the children of a primary message are the messages whose \<open>parent\<close> it is (both are set
  together, by \<^verbatim>\<open>add_additional\<close> and \<^verbatim>\<open>_create_cross_links\<close>), so on the entry of the window
  the effect is as follows. The calls on the views are not modelled.
\<close>

definition dismiss :: "message \<Rightarrow> win_info \<Rightarrow> win_info" where
  "dismiss m wi =
     (let root = (case parent m of Some p \<Rightarrow> p | None \<Rightarrow> msg_id m)
      in wi\<lparr>paths := map (\<lambda>(p, msgs).
                (p, map (\<lambda>x. if msg_id x = root \<or> parent x = Some root
                              then x\<lparr>hidden := True\<rparr> else x) msgs))
              (paths wi)\<rparr>)"

subsection \<open>Chains of macro expansions\<close>

text \<open>
  \<open>expansion_chain [leaf, \<dots>, root]\<close>: each span expands to the next one, and the last one
  has no expansion.
\<close>

fun expansion_chain :: "span list \<Rightarrow> bool" where
  "expansion_chain [] = False"
| "expansion_chain [r] = (expansion r = None)"
| "expansion_chain (s # t # ts) =
     (map_option exp_span (expansion s) = Some t \<and> expansion_chain (t # ts))"

subsection \<open>Example inputs\<close>

text \<open>An environment: a project at \<^verbatim>\<open>/proj\<close>, the default settings, plain markup.\<close>

definition env0 :: env where
  "env0 = \<lparr>realpath_join = (\<lambda>f. ''/proj/'' @ f),
           basename = (\<lambda>p. rev (takeWhile (\<lambda>c. c \<noteq> CHR ''/'') (rev p))),
           hide_warnings = False, sort_messages = True,
           replacement_html = (\<lambda>i r. ''replace:'' @ str_nat i @ '':'' @ r),
           link_html = (\<lambda>url f l. url @ '' '' @ f @ l),
           escape_and_link = (\<lambda>indent t. t),
           relative_path = (\<lambda>p. p)\<rparr>"

text \<open>The state \<^verbatim>\<open>add_rust_messages\<close> starts \<^verbatim>\<open>_collect_rust_messages\<close> with.\<close>

definition build0 :: build where
  "build0 = \<lparr>msg = Message 0, children = [], next_id = 1, delivered = []\<rparr>"

definition ex_root :: span where
  "ex_root = Span ''src/main.rs'' (Some 10) 10 5 8 False [] None None None"

definition ex_mid :: span where
  "ex_mid = Span ''<std macros>'' (Some 2) 2 1 9 False [] None None
              (Some (Expansion ex_root ''println!'' None))"

definition ex_leaf :: span where
  "ex_leaf = Span ''<std macros>'' (Some 1) 1 1 20 True [] (Some ''expected u32'') (Some ''x'')
               (Some (Expansion ex_mid ''print!'' None))"

definition ex_local_leaf :: span where
  "ex_local_leaf = Span ''src/lib.rs'' (Some 3) 3 1 5 True [] (Some ''here'') None
               (Some (Expansion ex_root ''my_macro!'' None))"

text \<open>A diagnostic with two primary spans and no label.\<close>

definition ex_primary_a :: span where
  "ex_primary_a = Span ''src/main.rs'' (Some 4) 4 9 10 True [] None None None"

definition ex_primary_b :: span where
  "ex_primary_b = Span ''src/main.rs'' (Some 20) 20 5 6 True [] None None None"

definition ex_two_primaries :: info where
  "ex_two_primaries = Info ''cannot borrow'' ''error'' None [ex_primary_a, ex_primary_b] []"

text \<open>A state without an entry for the window.\<close>

definition state0 :: state where
  "state0 = \<lparr>window = None, uuid = 0, cb_log = []\<rparr>"

text \<open>Diagnostics whose span has an empty label, or the message itself as its label.\<close>

definition ex_empty_label :: info where
  "ex_empty_label = Info ''mismatched types'' ''error'' None
     [Span ''src/main.rs'' (Some 10) 10 5 8 True [] (Some []) None None] []"

definition ex_same_label :: info where
  "ex_same_label = Info ''mismatched types'' ''error'' None
     [Span ''src/main.rs'' (Some 10) 10 5 8 True [] (Some ''mismatched types'') None None] []"

text \<open>
  A diagnostic with labels six and three lines below its primary span, and a diagnostic
  whose note has two messages at one place of another file.
\<close>

definition ex_lines :: info where
  "ex_lines = Info ''mismatched types'' ''error'' None
     [Span ''src/main.rs'' (Some 10) 10 5 8 True [] None None None,
      Span ''src/main.rs'' (Some 16) 16 1 4 False [] (Some ''six lines below'') None None,
      Span ''src/main.rs'' (Some 13) 13 1 4 False [] (Some ''three lines below'') None None] []"

definition ex_same_place :: info where
  "ex_same_place = Info ''cannot borrow as mutable'' ''error'' None
     [Span ''src/main.rs'' (Some 1) 1 1 6 True [] None None None]
     [Info ''previous borrow'' ''note'' None
        [Span ''src/lib.rs'' (Some 20) 20 1 4 True [] (Some ''borrowed here'') None None] []]"

section \<open>Properties\<close>

subsection \<open>Spans\<close>

lemma span_setters [simp]:
  "file_name (set_is_primary p s) = file_name s"
  "file_name (set_label l s) = file_name s"
  "file_name (set_suggested_replacement r s) = file_name s"
  "line_start (set_is_primary p s) = line_start s"
  "line_start (set_label l s) = line_start s"
  "line_start (set_suggested_replacement r s) = line_start s"
  "line_end (set_is_primary p s) = line_end s"
  "line_end (set_label l s) = line_end s"
  "line_end (set_suggested_replacement r s) = line_end s"
  "column_start (set_is_primary p s) = column_start s"
  "column_start (set_label l s) = column_start s"
  "column_start (set_suggested_replacement r s) = column_start s"
  "column_end (set_is_primary p s) = column_end s"
  "column_end (set_label l s) = column_end s"
  "column_end (set_suggested_replacement r s) = column_end s"
  "is_primary (set_is_primary p s) = p"
  "is_primary (set_label l s) = is_primary s"
  "is_primary (set_suggested_replacement r s) = is_primary s"
  "label (set_is_primary p s) = label s"
  "label (set_label l s) = l"
  "label (set_suggested_replacement r s) = label s"
  "suggested_replacement (set_is_primary p s) = suggested_replacement s"
  "suggested_replacement (set_label l s) = suggested_replacement s"
  "suggested_replacement (set_suggested_replacement r s) = r"
  "expansion (set_is_primary p s) = expansion s"
  "expansion (set_label l s) = expansion s"
  "expansion (set_suggested_replacement r s) = expansion s"
  by (cases s; simp)+

lemma find_span_r_chain:
  "expansion_chain (s # ts) \<Longrightarrow> fst (find_span_r s ex) = last (s # ts)"
proof (induction s ex arbitrary: ts rule: find_span_r.induct)
  case (1 f ls le cs ce p t l r s n d ex)
  then show ?case by (cases ts) auto
next
  case (2 f ls le cs ce p t l r ex)
  then show ?case by (cases ts) auto
qed

lemma find_span_r_no_expansion: "expansion (fst (find_span_r s ex)) = None"
  by (induction s ex rule: find_span_r.induct) auto

lemma resolve_macro_span_chain:
  assumes "expansion_chain (leaf # rest)" and "root = last (leaf # rest)"
  shows "fst (resolve_macro_span leaf) =
     set_suggested_replacement (suggested_replacement leaf)
       (set_label (label leaf) (set_is_primary (is_primary leaf) root))"
proof -
  have "fst (find_span_r leaf None) = root"
    using find_span_r_chain[OF assms(1), of None] assms(2) by simp
  then show ?thesis
    by (cases "find_span_r leaf None") (simp add: resolve_macro_span_def)
qed

text \<open>
  C6, as amended. For a chain of expansions \<open>leaf \<rightarrow> \<dots> \<rightarrow> root\<close>: when the file name of the
  leaf contains \<^verbatim>\<open>macros>\<close>, the resolved span has the location (file name, path, region) of
  the root and the \<open>is_primary\<close> flag, label and suggested replacement of the leaf, and it
  is the span the loop goes on with when the root is a file of the project. When the file
  name of the leaf does not contain \<^verbatim>\<open>macros>\<close>, the span is not resolved: the loop keeps
  the leaf and adds no message.
\<close>

theorem macro_root_resolution:
  assumes "expansion_chain (leaf # rest)" and "root = last (leaf # rest)"
  shows "(str_in ''macros>'' (file_name leaf) \<longrightarrow>
           (let sp = fst (resolve_macro_span leaf) in
            make_span_path ev sp = make_span_path ev root \<and>
            make_span_region sp = make_span_region root \<and>
            file_name sp = file_name root \<and>
            is_primary sp = is_primary leaf \<and> label sp = label leaf \<and>
            suggested_replacement sp = suggested_replacement leaf \<and>
            (\<not> str_in ''macros>'' (file_name root) \<longrightarrow>
               fst (macro_step ev target_path dia leaf b) = sp))) \<and>
         (\<not> str_in ''macros>'' (file_name leaf) \<longrightarrow>
            macro_step ev target_path dia leaf b = (leaf, b))"
proof -
  let ?sp = "fst (resolve_macro_span leaf)"
  have sp: "?sp = set_suggested_replacement (suggested_replacement leaf)
       (set_label (label leaf) (set_is_primary (is_primary leaf) root))"
    by (rule resolve_macro_span_chain[OF assms])
  have 1: "make_span_path ev ?sp = make_span_path ev root"
    unfolding sp by (simp add: make_span_path_def)
  have 2: "make_span_region ?sp = make_span_region root"
    unfolding sp by (simp add: make_span_region_def split: option.splits)
  have 3: "file_name ?sp = file_name root" "is_primary ?sp = is_primary leaf"
    "label ?sp = label leaf" "suggested_replacement ?sp = suggested_replacement leaf"
    unfolding sp by simp_all
  have 4: "fst (macro_step ev target_path dia leaf b) = ?sp"
    if "str_in ''macros>'' (file_name leaf)" "\<not> str_in ''macros>'' (file_name root)"
    using that 3(1)
    by (cases "resolve_macro_span leaf") (simp add: macro_step_def)
  have 5: "macro_step ev target_path dia leaf b = (leaf, b)"
    if "\<not> str_in ''macros>'' (file_name leaf)"
    using that by (simp add: macro_step_def)
  show ?thesis
    using 1 2 3 4 5 by (simp add: Let_def)
qed

theorem macro_root_resolution_witness:
  "expansion_chain [ex_leaf, ex_mid, ex_root] \<and> str_in ''macros>'' (file_name ex_leaf) \<and>
   \<not> str_in ''macros>'' (file_name ex_root) \<and>
   make_span_path env0
     (fst (macro_step env0 None (Info ''boom'' ''error'' None [ex_leaf] []) ex_leaf build0))
     = ''/proj/src/main.rs'' \<and>
   make_span_region (fst (resolve_macro_span ex_leaf)) = Some ((9, 4), (9, 7)) \<and>
   label (fst (resolve_macro_span ex_leaf)) = Some ''expected u32''"
proof -
  have c: "expansion_chain (ex_leaf # [ex_mid, ex_root])"
    by (simp add: ex_leaf_def ex_mid_def ex_root_def)
  have r: "ex_root = last (ex_leaf # [ex_mid, ex_root])" by simp
  have m: "str_in ''macros>'' (file_name ex_leaf)" "\<not> str_in ''macros>'' (file_name ex_root)"
    by (simp_all add: ex_leaf_def ex_root_def)
  show ?thesis
    using macro_root_resolution[OF c r, of env0 None "Info ''boom'' ''error'' None [ex_leaf] []"
        build0] c m
    by (simp add: Let_def make_span_path_def make_span_region_def ex_root_def ex_leaf_def env0_def)
qed

text \<open>
  C6 as stated fails for a span of a file of the project that carries an expansion (a
  macro defined in the project): the loop keeps the location of the leaf, and the primary
  message is placed there, not at the root of the chain.
\<close>

theorem macro_root_resolution_counterexample:
  "expansion_chain [ex_local_leaf, ex_root] \<and>
   fst (macro_step env0 None (Info ''boom'' ''error'' None [ex_local_leaf] []) ex_local_leaf build0)
     = ex_local_leaf \<and>
   make_span_path env0 ex_local_leaf \<noteq> make_span_path env0 ex_root \<and>
   make_span_region ex_local_leaf \<noteq> make_span_region ex_root \<and>
   path (msg (collect_rust_messages env0 None False (Info ''boom'' ''error'' None [ex_local_leaf] [])
                None build0)) = Some ''/proj/src/lib.rs'' \<and>
   span (msg (collect_rust_messages env0 None False (Info ''boom'' ''error'' None [ex_local_leaf] [])
                None build0)) = Some ((2, 0), (2, 4))"
  by (simp add: ex_local_leaf_def ex_root_def macro_step_def make_span_path_def
      make_span_region_def env0_def build0_def collect_span_def invoke_step_def primary_step_def
      label_step_def replacement_step_def set_primary_message_def add_additional_def new_child_def
      Message_def truthy_def startswith_def collect_rust_messages.simps)

subsection \<open>The primary message and its children\<close>

lemma add_additional_sel [simp]:
  "msg (add_additional ev sp t l b) = msg b"
  "delivered (add_additional ev sp t l b) = delivered b"
  "children (add_additional ev sp t l b) = children b @ [new_child ev b sp t l]"
  "next_id (add_additional ev sp t l b) = Suc (next_id b)"
  by (simp_all add: add_additional_def)

lemma new_child_sel [simp]:
  "path (new_child ev b sp t l) = Some (make_span_path ev sp)"
  "span (new_child ev b sp t l) = make_span_region sp"
  "msg_text (new_child ev b sp t l) = t"
  "level (new_child ev b sp t l) = Some l"
  "primary (new_child ev b sp t l) = False"
  "parent (new_child ev b sp t l) = Some (msg_id (msg b))"
  "msg_id (new_child ev b sp t l) = next_id b"
  "back_link (new_child ev b sp t l) = None"
  "hidden (new_child ev b sp t l) = False"
  by (simp_all add: new_child_def Message_def)

lemma macro_step_frame [simp]:
  "msg (snd (macro_step ev tp dia s b)) = msg b"
  "delivered (snd (macro_step ev tp dia s b)) = delivered b"
  by (simp_all add: macro_step_def Let_def split: prod.splits option.splits)

lemma macro_step_prefix: "prefix (children b) (children (snd (macro_step ev tp dia s b)))"
  by (simp add: macro_step_def Let_def split: prod.splits option.splits)

lemma invoke_step_frame [simp]:
  "msg (invoke_step ev s b) = msg b"
  "delivered (invoke_step ev s b) = delivered b"
  by (simp_all add: invoke_step_def split: option.splits)

lemma invoke_step_prefix: "prefix (children b) (children (invoke_step ev s b))"
  by (simp add: invoke_step_def split: option.splits)

lemma label_step_frame [simp]:
  "msg (label_step ev dia s b) = msg b"
  "delivered (label_step ev dia s b) = delivered b"
  by (simp_all add: label_step_def split: option.splits)

lemma label_step_prefix: "prefix (children b) (children (label_step ev dia s b))"
  by (simp add: label_step_def split: option.splits)

lemma replacement_step_frame [simp]:
  "msg (replacement_step ev s b) = msg b"
  "delivered (replacement_step ev s b) = delivered b"
  by (simp_all add: replacement_step_def split: option.splits)

lemma replacement_step_prefix: "prefix (children b) (children (replacement_step ev s b))"
  by (simp add: replacement_step_def split: option.splits)

lemma set_primary_message_sel [simp]:
  "fst (set_primary_message ev dia sp t b) = Some sp"
  "path (msg (snd (set_primary_message ev dia sp t b))) = Some (make_span_path ev sp)"
  "span (msg (snd (set_primary_message ev dia sp t b))) = make_span_region sp"
  "msg_text (msg (snd (set_primary_message ev dia sp t b))) = Some t"
  "level (msg (snd (set_primary_message ev dia sp t b))) = Some (info_level dia)"
  "primary (msg (snd (set_primary_message ev dia sp t b))) = primary (msg b)"
  "msg_id (msg (snd (set_primary_message ev dia sp t b))) = msg_id (msg b)"
  "parent (msg (snd (set_primary_message ev dia sp t b))) = parent (msg b)"
  "children (snd (set_primary_message ev dia sp t b)) = children b"
  "delivered (snd (set_primary_message ev dia sp t b)) = delivered b"
  "next_id (snd (set_primary_message ev dia sp t b)) = next_id b"
  by (simp_all add: set_primary_message_def Let_def split: option.splits prod.splits)

text \<open>With a parent span, the loop body keeps the parent span and the primary message.\<close>

lemma primary_step_Some:
  "primary_step ev dia s (Some ps, b) =
     (Some ps, if is_primary s then add_additional ev s (Some (info_message dia)) (info_level dia) b
               else b)"
  by (simp add: primary_step_def)

lemma collect_span_Some:
  "\<exists>b'. collect_span ev tp dia (Some ps, b) s = (Some ps, b') \<and> msg b' = msg b \<and>
        delivered b' = delivered b \<and> prefix (children b) (children b')"
proof -
  obtain sp b1 where m: "macro_step ev tp dia s b = (sp, b1)" by (cases "macro_step ev tp dia s b")
  have b1: "msg b1 = msg b" "delivered b1 = delivered b" "prefix (children b) (children b1)"
    using macro_step_frame[of ev tp dia s b] macro_step_prefix[of b ev tp dia s] m by simp_all
  let ?b2 = "invoke_step ev sp b1"
  let ?b3 = "if is_primary sp then add_additional ev sp (Some (info_message dia)) (info_level dia) ?b2 else ?b2"
  let ?b4 = "label_step ev dia sp ?b3"
  let ?b5 = "replacement_step ev sp ?b4"
  have e: "collect_span ev tp dia (Some ps, b) s = (Some ps, ?b5)"
    by (simp add: collect_span_def m primary_step_Some)
  have p2: "prefix (children b1) (children ?b2)" by (rule invoke_step_prefix)
  have p3: "prefix (children ?b2) (children ?b3)" by simp
  have p4: "prefix (children ?b3) (children ?b4)" by (rule label_step_prefix)
  have p5: "prefix (children ?b4) (children ?b5)" by (rule replacement_step_prefix)
  have "prefix (children b) (children ?b5)"
    using b1(3) p2 p3 p4 p5 by (meson prefix_order.trans)
  moreover have "msg ?b5 = msg b" "delivered ?b5 = delivered b" using b1 by simp_all
  ultimately show ?thesis using e by blast
qed

lemma foldl_collect_span_Some:
  "\<exists>b'. foldl (collect_span ev tp dia) (Some ps, b) spans = (Some ps, b') \<and> msg b' = msg b \<and>
        delivered b' = delivered b \<and> prefix (children b) (children b')"
proof (induction spans arbitrary: b)
  case Nil
  then show ?case by simp
next
  case (Cons s spans)
  obtain b1 where 1: "collect_span ev tp dia (Some ps, b) s = (Some ps, b1)" "msg b1 = msg b"
    "delivered b1 = delivered b" "prefix (children b) (children b1)"
    using collect_span_Some by blast
  obtain b2 where 2: "foldl (collect_span ev tp dia) (Some ps, b1) spans = (Some ps, b2)"
    "msg b2 = msg b1" "delivered b2 = delivered b1" "prefix (children b1) (children b2)"
    using Cons.IH by blast
  show ?case using 1 2 by (auto intro: prefix_order.trans)
qed

lemma collect_rust_messages_Some:
  "pinfo = Some ps \<Longrightarrow> msg (collect_rust_messages ev tp cb dia pinfo b) = msg b \<and>
   delivered (collect_rust_messages ev tp cb dia pinfo b) = delivered b \<and>
   prefix (children b) (children (collect_rust_messages ev tp cb dia pinfo b))"
proof (induction ev tp cb dia pinfo b rule: collect_rust_messages.induct)
  case (1 ev tp cb m l c spans chs pinfo b)
  let ?dia = "Info m l c spans chs"
  let ?st1 = "if spans = [] then no_spans_step ev tp cb ?dia (pinfo, b) else (pinfo, b)"
  let ?st2 = "foldl (collect_span ev tp ?dia) ?st1 spans"
  have pi: "pinfo = Some ps" by fact
  obtain b1 where st1: "?st1 = (Some ps, b1)" "msg b1 = msg b" "delivered b1 = delivered b"
    "prefix (children b) (children b1)"
    using pi by (cases "spans = []") (simp_all add: no_spans_step_def)
  obtain b2 where st2: "foldl (collect_span ev tp ?dia) (Some ps, b1) spans = (Some ps, b2)"
    "msg b2 = msg b1" "delivered b2 = delivered b1" "prefix (children b1) (children b2)"
    using foldl_collect_span_Some by blast
  have st2': "?st2 = (Some ps, b2)" using st1(1) st2(1) by simp
  have IH: "msg (collect_rust_messages ev tp cb ch (Some ps) acc) = msg acc \<and>
     delivered (collect_rust_messages ev tp cb ch (Some ps) acc) = delivered acc \<and>
     prefix (children acc) (children (collect_rust_messages ev tp cb ch (Some ps) acc))"
    if "ch \<in> set chs" for ch acc
    using "1.IH"[OF _ refl refl refl that, of acc] pi st2' by simp
  have F: "set cs \<subseteq> set chs \<Longrightarrow>
     msg (foldl (\<lambda>acc ch. collect_rust_messages ev tp cb ch (Some ps) acc) acc cs) = msg acc \<and>
     delivered (foldl (\<lambda>acc ch. collect_rust_messages ev tp cb ch (Some ps) acc) acc cs) = delivered acc \<and>
     prefix (children acc) (children (foldl (\<lambda>acc ch. collect_rust_messages ev tp cb ch (Some ps) acc) acc cs))" for cs acc
  proof (induction cs arbitrary: acc)
    case Nil
    then show ?case by simp
  next
    case (Cons a cs)
    have a: "a \<in> set chs" using Cons.prems by simp
    show ?case using Cons.IH[of "collect_rust_messages ev tp cb a (Some ps) acc"] Cons.prems IH[OF a, of acc]
      by (auto intro: prefix_order.trans)
  qed
  have res: "collect_rust_messages ev tp cb ?dia pinfo b =
     foldl (\<lambda>acc ch. collect_rust_messages ev tp cb ch (Some ps) acc) b2 chs"
    apply (subst collect_rust_messages.simps)
    apply (simp only: Let_def st2' fst_conv snd_conv)
    apply (simp add: pi)
    done
  show ?case unfolding res using F[of chs b2] st1 st2 by (auto intro: prefix_order.trans)
qed

lemma span_setters2 [simp]:
  "is_primary (set_file_name f s) = is_primary s"
  "is_primary (set_line_start ls s) = is_primary s"
  "label (set_file_name f s) = label s"
  "label (set_line_start ls s) = label s"
  "suggested_replacement (set_file_name f s) = suggested_replacement s"
  "suggested_replacement (set_line_start ls s) = suggested_replacement s"
  "expansion (set_file_name f s) = expansion s"
  "expansion (set_line_start ls s) = expansion s"
  "file_name (set_file_name f s) = f"
  "file_name (set_line_start ls s) = file_name s"
  "line_start (set_line_start ls s) = ls"
  by (cases s; simp)+

lemma macro_step_fst_indep:
  "fst (macro_step ev tp dia s b) = fst (macro_step ev' tp dia' s b')"
  by (simp add: macro_step_def Let_def split: prod.splits option.splits)

lemma macro_step_flags [simp]:
  "is_primary (fst (macro_step ev tp dia s b)) = is_primary s"
  "label (fst (macro_step ev tp dia s b)) = label s"
  "suggested_replacement (fst (macro_step ev tp dia s b)) = suggested_replacement s"
  by (auto simp: macro_step_def resolve_macro_span_def Let_def split: prod.splits option.splits)

lemma collect_span_not_primary:
  assumes "\<not> is_primary s"
  shows "\<exists>b'. collect_span ev tp dia (pinfo, b) s = (pinfo, b') \<and> msg b' = msg b \<and>
           delivered b' = delivered b \<and> prefix (children b) (children b')"
proof -
  obtain sp b1 where m: "macro_step ev tp dia s b = (sp, b1)" by (cases "macro_step ev tp dia s b")
  have np: "\<not> is_primary sp" using macro_step_flags(1)[of ev tp dia s b] m assms by simp
  have b1: "msg b1 = msg b" "delivered b1 = delivered b" "prefix (children b) (children b1)"
    using macro_step_frame[of ev tp dia s b] macro_step_prefix[of b ev tp dia s] m by simp_all
  let ?b2 = "invoke_step ev sp b1"
  let ?b4 = "label_step ev dia sp ?b2"
  let ?b5 = "replacement_step ev sp ?b4"
  have e: "collect_span ev tp dia (pinfo, b) s = (pinfo, ?b5)"
    using np by (simp add: collect_span_def m primary_step_def)
  have "prefix (children b) (children ?b5)"
    using b1(3) invoke_step_prefix[of b1 ev sp] label_step_prefix[of ?b2 ev dia sp]
      replacement_step_prefix[of ?b4 ev sp] by (meson prefix_order.trans)
  moreover have "msg ?b5 = msg b" "delivered ?b5 = delivered b" using b1 by simp_all
  ultimately show ?thesis using e by blast
qed

lemma foldl_collect_span_not_primary:
  assumes "\<forall>s\<in>set pre. \<not> is_primary s"
  shows "\<exists>b'. foldl (collect_span ev tp dia) (pinfo, b) pre = (pinfo, b') \<and> msg b' = msg b \<and>
           delivered b' = delivered b \<and> prefix (children b) (children b')"
  using assms
proof (induction pre arbitrary: b)
  case Nil
  then show ?case by simp
next
  case (Cons s pre)
  obtain b1 where 1: "collect_span ev tp dia (pinfo, b) s = (pinfo, b1)" "msg b1 = msg b"
    "delivered b1 = delivered b" "prefix (children b) (children b1)"
    using collect_span_not_primary[where s=s and ev=ev and tp=tp and dia=dia and pinfo=pinfo and b=b]
      Cons.prems by auto
  obtain b2 where 2: "foldl (collect_span ev tp dia) (pinfo, b1) pre = (pinfo, b2)"
    "msg b2 = msg b1" "delivered b2 = delivered b1" "prefix (children b1) (children b2)"
    using Cons.IH[of b1] Cons.prems by auto
  show ?case using 1 2 by (auto intro: prefix_order.trans)
qed

text \<open>The first primary span of a diagnostic without a parent sets the primary message.\<close>

lemma collect_span_first_primary:
  assumes "is_primary s" and "\<not> truthy (path (msg b))"
  shows "\<exists>b'. collect_span ev tp dia (None, b) s = (Some (fst (macro_step ev tp dia s b)), b') \<and>
           path (msg b') = Some (make_span_path ev (fst (macro_step ev tp dia s b))) \<and>
           span (msg b') = make_span_region (fst (macro_step ev tp dia s b)) \<and>
           msg_text (msg b') = Some (info_message dia) \<and>
           level (msg b') = Some (info_level dia) \<and>
           primary (msg b') = primary (msg b) \<and> msg_id (msg b') = msg_id (msg b) \<and>
           delivered b' = delivered b \<and> prefix (children b) (children b')"
proof -
  obtain sp b1 where m: "macro_step ev tp dia s b = (sp, b1)" by (cases "macro_step ev tp dia s b")
  have np: "is_primary sp" using macro_step_flags(1)[of ev tp dia s b] m assms by simp
  have b1: "msg b1 = msg b" "delivered b1 = delivered b" "prefix (children b) (children b1)"
    using macro_step_frame[of ev tp dia s b] macro_step_prefix[of b ev tp dia s] m by simp_all
  let ?b2 = "invoke_step ev sp b1"
  let ?b3 = "snd (set_primary_message ev dia sp (info_message dia) ?b2)"
  let ?b4 = "label_step ev dia sp ?b3"
  let ?b5 = "replacement_step ev sp ?b4"
  have nt: "\<not> truthy (path (msg ?b2))" using assms(2) b1 by simp
  have e: "collect_span ev tp dia (None, b) s = (Some sp, ?b5)"
    using np nt
    by (cases "set_primary_message ev dia sp (info_message dia) ?b2")
       (use set_primary_message_sel(1)[of ev dia sp "info_message dia" ?b2] in
         \<open>simp add: collect_span_def m primary_step_def\<close>)
  have "prefix (children b) (children ?b2)"
    using b1(3) invoke_step_prefix[of b1 ev sp] by (rule prefix_order.trans)
  then have "prefix (children b) (children ?b3)" by simp
  then have "prefix (children b) (children ?b4)"
    using label_step_prefix[of ?b3 ev dia sp] by (rule prefix_order.trans)
  then have "prefix (children b) (children ?b5)"
    using replacement_step_prefix[of ?b4 ev sp] by (rule prefix_order.trans)
  moreover have "msg ?b5 = msg ?b3" "delivered ?b5 = delivered b" using b1 by simp_all
  ultimately show ?thesis using e m b1 by auto
qed

text \<open>A primary span of a diagnostic that has a parent span becomes a child.\<close>

lemma collect_span_later_primary:
  assumes "is_primary s"
  shows "\<exists>b'. collect_span ev tp dia (Some ps, b) s = (Some ps, b') \<and> msg b' = msg b \<and>
           prefix (children b) (children b') \<and>
           (\<exists>c\<in>set (children b').
              path c = Some (make_span_path ev (fst (macro_step ev tp dia s b))) \<and>
              span c = make_span_region (fst (macro_step ev tp dia s b)) \<and>
              msg_text c = Some (info_message dia) \<and> level c = Some (info_level dia) \<and>
              \<not> primary c \<and> parent c = Some (msg_id (msg b)))"
proof -
  obtain sp b1 where m: "macro_step ev tp dia s b = (sp, b1)" by (cases "macro_step ev tp dia s b")
  have np: "is_primary sp" using macro_step_flags(1)[of ev tp dia s b] m assms by simp
  have b1: "msg b1 = msg b" "delivered b1 = delivered b" "prefix (children b) (children b1)"
    using macro_step_frame[of ev tp dia s b] macro_step_prefix[of b ev tp dia s] m by simp_all
  let ?b2 = "invoke_step ev sp b1"
  let ?b3 = "add_additional ev sp (Some (info_message dia)) (info_level dia) ?b2"
  let ?c = "new_child ev ?b2 sp (Some (info_message dia)) (info_level dia)"
  let ?b4 = "label_step ev dia sp ?b3"
  let ?b5 = "replacement_step ev sp ?b4"
  have e: "collect_span ev tp dia (Some ps, b) s = (Some ps, ?b5)"
    using np by (simp add: collect_span_def m primary_step_Some)
  have p35: "prefix (children ?b3) (children ?b5)"
    using label_step_prefix[of ?b3 ev dia sp] replacement_step_prefix[of ?b4 ev sp]
    by (meson prefix_order.trans)
  have "prefix (children b) (children ?b2)"
    using b1(3) invoke_step_prefix[of b1 ev sp] by (rule prefix_order.trans)
  then have "prefix (children b) (children ?b3)"
    by (simp add: prefix_def) auto
  then have p: "prefix (children b) (children ?b5)" using p35 by (meson prefix_order.trans)
  have "?c \<in> set (children ?b3)" by simp
  then have cin: "?c \<in> set (children ?b5)" using p35 set_mono_prefix by blast
  have ex: "\<exists>c\<in>set (children ?b5).
              path c = Some (make_span_path ev sp) \<and> span c = make_span_region sp \<and>
              msg_text c = Some (info_message dia) \<and> level c = Some (info_level dia) \<and>
              \<not> primary c \<and> parent c = Some (msg_id (msg b))"
    using cin b1 by (intro bexI[of _ ?c]) simp_all
  have "msg ?b5 = msg b" using b1 by simp
  then show ?thesis using e p ex m by simp
qed


lemma foldl_collect_span_later_primaries:
  "\<exists>b'. foldl (collect_span ev tp dia) (Some ps, b) rest = (Some ps, b') \<and> msg b' = msg b \<and>
        prefix (children b) (children b') \<and>
        (\<forall>s\<in>set rest. is_primary s \<longrightarrow>
           (\<exists>c\<in>set (children b').
              path c = Some (make_span_path ev (fst (macro_step ev tp dia s b0))) \<and>
              span c = make_span_region (fst (macro_step ev tp dia s b0)) \<and>
              msg_text c = Some (info_message dia) \<and> level c = Some (info_level dia) \<and>
              \<not> primary c \<and> parent c = Some (msg_id (msg b))))"
proof (induction rest arbitrary: b)
  case Nil
  then show ?case by simp
next
  case (Cons s rest)
  let ?P = "\<lambda>s c. path c = Some (make_span_path ev (fst (macro_step ev tp dia s b0))) \<and>
              span c = make_span_region (fst (macro_step ev tp dia s b0)) \<and>
              msg_text c = Some (info_message dia) \<and> level c = Some (info_level dia) \<and>
              \<not> primary c \<and> parent c = Some (msg_id (msg b))"
  obtain b1 where 1: "collect_span ev tp dia (Some ps, b) s = (Some ps, b1)" "msg b1 = msg b"
    "prefix (children b) (children b1)"
    "is_primary s \<longrightarrow> (\<exists>c\<in>set (children b1). ?P s c)"
  proof (cases "is_primary s")
    case True
    show ?thesis
      using collect_span_later_primary[OF True, of ev tp dia ps b] that True
        macro_step_fst_indep[of ev tp dia s b ev dia b0]
      by auto
  next
    case False
    show ?thesis
      using collect_span_Some[of ev tp dia ps b s] that False by auto
  qed
  obtain b2 where 2: "foldl (collect_span ev tp dia) (Some ps, b1) rest = (Some ps, b2)"
    "msg b2 = msg b1" "prefix (children b1) (children b2)"
    "\<forall>s\<in>set rest. is_primary s \<longrightarrow> (\<exists>c\<in>set (children b2). ?P s c)"
    using Cons.IH[of b1] 1(2) by auto
  have sub: "set (children b1) \<subseteq> set (children b2)" using 2(3) by (rule set_mono_prefix)
  have "prefix (children b) (children b2)" using 1(3) 2(3) by (rule prefix_order.trans)
  moreover have "\<forall>t\<in>set (s # rest). is_primary t \<longrightarrow> (\<exists>c\<in>set (children b2). ?P t c)"
    using 1(4) 2(4) sub by auto
  ultimately show ?case using 1(1,2) 2(1,2) by simp
qed

text \<open>
  C1. A diagnostic without a parent (\<open>parent_info\<close> empty, primary message not yet set) that
  is not hidden as a warning, and whose spans are \<open>pre @ p # rest\<close> with \<open>p\<close> the first
  primary span: the primary message takes its path and region from \<open>p\<close> (as the loop
  resolved it) and its text and level from the diagnostic, and every primary span of
  \<open>rest\<close> gives a child of the primary message at that span, with the text and level
  of the diagnostic.
\<close>

theorem first_primary_span:
  assumes "l = ''error'' \<or> \<not> hide_warnings ev"
    and "spans = pre @ p # rest"
    and "\<forall>s\<in>set pre. \<not> is_primary s"
    and "is_primary p"
    and "\<not> truthy (path (msg b))"
  shows "(let b' = collect_rust_messages ev tp cb (Info m l cd spans chs) None b;
              p' = fst (macro_step ev tp (Info m l cd spans chs) p b)
          in path (msg b') = Some (make_span_path ev p') \<and>
             span (msg b') = make_span_region p' \<and>
             msg_text (msg b') = Some m \<and> level (msg b') = Some l \<and>
             primary (msg b') = primary (msg b) \<and>
             (\<forall>s\<in>set rest. is_primary s \<longrightarrow>
                (\<exists>c\<in>set (children b').
                   (let s' = fst (macro_step ev tp (Info m l cd spans chs) s b)
                    in path c = Some (make_span_path ev s') \<and> span c = make_span_region s' \<and>
                       msg_text c = Some m \<and> level c = Some l \<and> \<not> primary c \<and>
                       parent c = Some (msg_id (msg b'))))))"
proof -
  let ?dia = "Info m l cd spans chs"
  have ne: "spans \<noteq> []" using assms(2) by simp
  obtain b1 where 1: "foldl (collect_span ev tp ?dia) (None, b) pre = (None, b1)"
    "msg b1 = msg b" "prefix (children b) (children b1)"
    using foldl_collect_span_not_primary[OF assms(3), of ev tp ?dia None b] by auto
  have nt: "\<not> truthy (path (msg b1))" using assms(5) 1(2) by simp
  let ?p' = "fst (macro_step ev tp ?dia p b)"
  obtain b2 where 2: "collect_span ev tp ?dia (None, b1) p = (Some ?p', b2)"
    "path (msg b2) = Some (make_span_path ev ?p')" "span (msg b2) = make_span_region ?p'"
    "msg_text (msg b2) = Some m" "level (msg b2) = Some l"
    "primary (msg b2) = primary (msg b)" "msg_id (msg b2) = msg_id (msg b)"
    using collect_span_first_primary[OF assms(4) nt, of ev tp ?dia] 1(2)
      macro_step_fst_indep[of ev tp ?dia p b1 ev ?dia b]
    by auto
  let ?P = "\<lambda>s c. path c = Some (make_span_path ev (fst (macro_step ev tp ?dia s b))) \<and>
              span c = make_span_region (fst (macro_step ev tp ?dia s b)) \<and>
              msg_text c = Some m \<and> level c = Some l \<and>
              \<not> primary c \<and> parent c = Some (msg_id (msg b2))"
  obtain b3 where 3: "foldl (collect_span ev tp ?dia) (Some ?p', b2) rest = (Some ?p', b3)"
    "msg b3 = msg b2" "\<forall>s\<in>set rest. is_primary s \<longrightarrow> (\<exists>c\<in>set (children b3). ?P s c)"
    using foldl_collect_span_later_primaries[of ev tp ?dia ?p' b2 rest b] by auto
  have st2: "foldl (collect_span ev tp ?dia) (None, b) spans = (Some ?p', b3)"
    using 1(1) 2(1) 3(1) assms(2) by simp
  let ?b' = "foldl (\<lambda>acc ch. collect_rust_messages ev tp cb ch (Some ?p') acc) b3 chs"
  have res: "collect_rust_messages ev tp cb ?dia None b = ?b'"
    apply (subst collect_rust_messages.simps)
    apply (simp only: Let_def ne if_False st2 fst_conv snd_conv)
    apply (use assms(1) in auto)
    done
  have F: "msg (foldl (\<lambda>acc ch. collect_rust_messages ev tp cb ch (Some ?p') acc) acc cs) = msg acc \<and>
     prefix (children acc)
       (children (foldl (\<lambda>acc ch. collect_rust_messages ev tp cb ch (Some ?p') acc) acc cs))"
    for cs acc
  proof (induction cs arbitrary: acc)
    case Nil
    then show ?case by simp
  next
    case (Cons a cs)
    show ?case
      using Cons.IH[of "collect_rust_messages ev tp cb a (Some ?p') acc"]
        collect_rust_messages_Some[OF refl, of ev tp cb a ?p' acc]
      by (auto intro: prefix_order.trans)
  qed
  have m': "msg ?b' = msg b2" and sub: "set (children b3) \<subseteq> set (children ?b')"
    using F[of b3 chs] 3(2) set_mono_prefix by auto
  have "\<forall>s\<in>set rest. is_primary s \<longrightarrow> (\<exists>c\<in>set (children ?b'). ?P s c)"
    using 3(3) sub by blast
  then show ?thesis
    unfolding res Let_def using m' 2 by simp
qed


theorem first_primary_span_witness:
  "(''error'' = ''error'' \<or> \<not> hide_warnings env0) \<and>
   [ex_primary_a, ex_primary_b] = [] @ ex_primary_a # [ex_primary_b] \<and>
   is_primary ex_primary_a \<and> is_primary ex_primary_b \<and>
   \<not> truthy (path (msg build0)) \<and>
   (let b' = collect_rust_messages env0 None False ex_two_primaries None build0
    in path (msg b') = Some ''/proj/src/main.rs'' \<and> span (msg b') = Some ((3, 8), (3, 9)) \<and>
       msg_text (msg b') = Some ''cannot borrow'' \<and> level (msg b') = Some ''error'' \<and>
       (\<exists>c\<in>set (children b').
          path c = Some ''/proj/src/main.rs'' \<and> span c = Some ((19, 4), (19, 5)) \<and>
          msg_text c = Some ''cannot borrow'' \<and> level c = Some ''error'' \<and> \<not> primary c \<and>
          parent c = Some (msg_id (msg b'))))"
proof -
  have h1: "''error'' = ''error'' \<or> \<not> hide_warnings env0" by simp
  have h2: "[ex_primary_a, ex_primary_b] = [] @ ex_primary_a # [ex_primary_b]" by simp
  have h3: "\<forall>s\<in>set []. \<not> is_primary s" by simp
  have h4: "is_primary ex_primary_a" by (simp add: ex_primary_a_def)
  have h4': "is_primary ex_primary_b" by (simp add: ex_primary_b_def)
  have h5: "\<not> truthy (path (msg build0))" by (simp add: build0_def Message_def truthy_def)
  have ms: "macro_step env0 None dia ex_primary_a b = (ex_primary_a, b)"
    "macro_step env0 None dia ex_primary_b b = (ex_primary_b, b)" for dia b
    by (simp_all add: macro_step_def ex_primary_a_def ex_primary_b_def)
  have pr: "make_span_path env0 ex_primary_a = ''/proj/src/main.rs''"
    "make_span_path env0 ex_primary_b = ''/proj/src/main.rs''"
    "make_span_region ex_primary_a = Some ((3, 8), (3, 9))"
    "make_span_region ex_primary_b = Some ((19, 4), (19, 5))"
    by (simp_all add: make_span_path_def make_span_region_def env0_def ex_primary_a_def
        ex_primary_b_def)
  show ?thesis
    using first_primary_span[OF h1 h2 h3 h4 h5, where tp=None and cb=False and m="''cannot borrow''"
        and cd=None and chs="[]"] h4 h4' h5
    by (simp add: Let_def ms pr ex_two_primaries_def)
qed

subsection \<open>Diagnostics without spans\<close>

lemma foldl_collect_rust_messages_Some:
  "msg (foldl (\<lambda>acc ch. collect_rust_messages ev tp cb ch (Some ps) acc) acc cs) = msg acc \<and>
   delivered (foldl (\<lambda>acc ch. collect_rust_messages ev tp cb ch (Some ps) acc) acc cs) =
     delivered acc \<and>
   prefix (children acc)
     (children (foldl (\<lambda>acc ch. collect_rust_messages ev tp cb ch (Some ps) acc) acc cs))"
proof (induction cs arbitrary: acc)
  case Nil
  then show ?case by simp
next
  case (Cons a cs)
  show ?case
    using Cons.IH[of "collect_rust_messages ev tp cb a (Some ps) acc"]
      collect_rust_messages_Some[OF refl, of ev tp cb a ps acc]
    by (auto intro: prefix_order.trans)
qed

lemma collect_no_spans:
  assumes "l = ''error'' \<or> \<not> hide_warnings ev"
  shows "collect_rust_messages ev tp cb (Info m l cd [] chs) None b =
     (let st1 = no_spans_step ev tp cb (Info m l cd [] chs) (None, b)
      in foldl (\<lambda>acc ch. collect_rust_messages ev tp cb ch (fst st1) acc) (snd st1) chs)"
  apply (subst collect_rust_messages.simps)
  apply (use assms in \<open>auto simp: Let_def\<close>)
  done

lemma no_spans_step_deny:
  assumes "startswith (info_message dia) ''aborting due to'' \<or>
           startswith (info_message dia) ''cannot continue''"
  shows "no_spans_step ev tp cb dia (None, b) = (None, b)"
  using assms by (auto simp: no_spans_step_def Let_def)

lemma no_spans_step_target:
  assumes "\<not> (startswith (info_message dia) ''aborting due to'' \<or>
              startswith (info_message dia) ''cannot continue'')"
    and "tp = Some t" and "t \<noteq> []"
  shows "no_spans_step ev tp cb dia (None, b) =
           set_primary_message ev dia (fake_span t) (info_message dia) b"
  using assms by (auto simp: no_spans_step_def Let_def)

lemma no_spans_step_callback:
  assumes "\<not> (startswith (info_message dia) ''aborting due to'' \<or>
              startswith (info_message dia) ''cannot continue'')"
    and "\<not> truthy tp"
  shows "no_spans_step ev tp cb dia (None, b) =
           (None, if cb
                  then b\<lparr>delivered := delivered b @
                           [(Message (next_id b))\<lparr>level := Some (info_level dia),
                              msg_text := Some (info_message dia)\<rparr>],
                         next_id := Suc (next_id b)\<rparr>
                  else b)"
  using assms by (cases tp) (auto simp: no_spans_step_def truthy_def Let_def)

text \<open>
  C8. A diagnostic without spans and without a parent, not hidden as a warning. If its
  message starts with "aborting due to" or "cannot continue", it adds nothing: the result
  is that of its child diagnostics alone, and without children \<^verbatim>\<open>add_rust_messages\<close> leaves the
  window and the callback log as they are. Otherwise, with a target path, the primary
  message gets that path, no region, and the text and level of the diagnostic, and nothing
  goes to the callback. Otherwise, without a target path, the diagnostic itself only hands
  a message with its level and text to the callback (when there is one) and leaves the
  primary message and its children untouched; without children \<^verbatim>\<open>add_rust_messages\<close> then
  stores nothing in the window.
\<close>

theorem spanless_global_message:
  assumes "l = ''error'' \<or> \<not> hide_warnings ev"
  shows
    "(startswith m ''aborting due to'' \<or> startswith m ''cannot continue'' \<longrightarrow>
        collect_rust_messages ev tp cb (Info m l cd [] chs) None b =
          foldl (\<lambda>acc ch. collect_rust_messages ev tp cb ch None acc) b chs \<and>
        (chs = [] \<longrightarrow>
           add_rust_messages ev (Rustc (Info m l cd [] chs)) tp cb st =
             Some (st\<lparr>uuid := Suc (uuid st)\<rparr>))) \<and>
     (\<not> (startswith m ''aborting due to'' \<or> startswith m ''cannot continue'') \<longrightarrow>
        (\<forall>t. tp = Some t \<and> t \<noteq> [] \<longrightarrow>
           (let b' = collect_rust_messages ev tp cb (Info m l cd [] chs) None b
            in path (msg b') = Some (realpath_join ev t) \<and> span (msg b') = None \<and>
               msg_text (msg b') = Some m \<and> level (msg b') = Some l \<and>
               primary (msg b') = primary (msg b) \<and> delivered b' = delivered b)) \<and>
        (\<not> truthy tp \<longrightarrow>
           collect_rust_messages ev tp cb (Info m l cd [] chs) None b =
             foldl (\<lambda>acc ch. collect_rust_messages ev tp cb ch None acc)
               (if cb
                then b\<lparr>delivered := delivered b @
                         [(Message (next_id b))\<lparr>level := Some l, msg_text := Some m\<rparr>],
                       next_id := Suc (next_id b)\<rparr>
                else b) chs \<and>
           (chs = [] \<longrightarrow>
              add_rust_messages ev (Rustc (Info m l cd [] chs)) tp cb st =
                Some (if cb
                      then st\<lparr>uuid := Suc (Suc (uuid st)),
                              cb_log := cb_log st @
                                [(Message (Suc (uuid st)))\<lparr>level := Some l, msg_text := Some m\<rparr>]\<rparr>
                      else st\<lparr>uuid := Suc (uuid st)\<rparr>))))"
proof -
  let ?dia = "Info m l cd [] chs"
  let ?deny = "startswith m ''aborting due to'' \<or> startswith m ''cannot continue''"
  note un = collect_no_spans[OF assms, where tp=tp and cb=cb and m=m and cd=cd and chs=chs]
  have A: "collect_rust_messages ev tp cb ?dia None b =
          foldl (\<lambda>acc ch. collect_rust_messages ev tp cb ch None acc) b chs" if "?deny" for b
    using that no_spans_step_deny[of ?dia ev tp cb b] by (simp add: un Let_def)
  have C: "collect_rust_messages ev tp cb ?dia None b =
             foldl (\<lambda>acc ch. collect_rust_messages ev tp cb ch None acc)
               (if cb
                then b\<lparr>delivered := delivered b @
                         [(Message (next_id b))\<lparr>level := Some l, msg_text := Some m\<rparr>],
                       next_id := Suc (next_id b)\<rparr>
                else b) chs" if "\<not> ?deny" "\<not> truthy tp" for b
    using that no_spans_step_callback[of ?dia tp ev cb b] by (simp add: un Let_def)
  have B: "let b' = collect_rust_messages ev tp cb ?dia None b
            in path (msg b') = Some (realpath_join ev t) \<and> span (msg b') = None \<and>
               msg_text (msg b') = Some m \<and> level (msg b') = Some l \<and>
               primary (msg b') = primary (msg b) \<and> delivered b' = delivered b"
    if "\<not> ?deny" "tp = Some t" "t \<noteq> []" for t
  proof -
    let ?sp = "set_primary_message ev ?dia (fake_span t) m b"
    have st1: "no_spans_step ev tp cb ?dia (None, b) = ?sp"
      using that no_spans_step_target[of ?dia tp t ev cb b] by simp
    have f: "fst ?sp = Some (fake_span t)" by simp
    have r: "collect_rust_messages ev tp cb ?dia None b =
       foldl (\<lambda>acc ch. collect_rust_messages ev tp cb ch (Some (fake_span t)) acc) (snd ?sp) chs"
      by (simp add: un st1 Let_def)
    show ?thesis
      unfolding r Let_def
      using foldl_collect_rust_messages_Some[of ev tp cb "fake_span t" "snd ?sp" chs]
      by (simp add: make_span_path_def make_span_region_def fake_span_def)
  qed
  let ?b0 = "\<lparr>msg = Message (uuid st), children = [], next_id = Suc (uuid st), delivered = cb_log st\<rparr>"
  have D: "add_rust_messages ev (Rustc ?dia) tp cb st = Some (st\<lparr>uuid := Suc (uuid st)\<rparr>)"
    if "?deny" "chs = []"
    using that A[of ?b0, OF that(1)]
    by (simp add: add_rust_messages_def Let_def Message_def truthy_def)
  have E: "add_rust_messages ev (Rustc ?dia) tp cb st =
                Some (if cb
                      then st\<lparr>uuid := Suc (Suc (uuid st)),
                              cb_log := cb_log st @
                                [(Message (Suc (uuid st)))\<lparr>level := Some l, msg_text := Some m\<rparr>]\<rparr>
                      else st\<lparr>uuid := Suc (uuid st)\<rparr>)"
    if "\<not> ?deny" "\<not> truthy tp" "chs = []"
    using that C[of ?b0, OF that(1,2)]
    by (simp add: add_rust_messages_def Let_def Message_def truthy_def)
  show ?thesis using A B C D E by blast
qed


theorem spanless_global_message_witness:
  "\<not> hide_warnings env0 \<and>
   startswith ''aborting due to previous error'' ''aborting due to'' \<and>
   add_rust_messages env0 (Rustc (Info ''aborting due to previous error'' ''error'' None [] []))
     (Some ''src/main.rs'') True state0 = Some (state0\<lparr>uuid := 1\<rparr>) \<and>
   \<not> startswith ''main function not found'' ''aborting due to'' \<and>
   \<not> startswith ''main function not found'' ''cannot continue'' \<and>
   (let b' = collect_rust_messages env0 (Some ''src/main.rs'') True
               (Info ''main function not found'' ''error'' None [] []) None build0
    in path (msg b') = Some ''/proj/src/main.rs'' \<and> span (msg b') = None \<and>
       msg_text (msg b') = Some ''main function not found'' \<and> level (msg b') = Some ''error'' \<and>
       primary (msg b') \<and> delivered b' = []) \<and>
   add_rust_messages env0 (Rustc (Info ''main function not found'' ''error'' None [] []))
     None True state0 =
     Some (state0\<lparr>uuid := 2,
             cb_log := [(Message 1)\<lparr>level := Some ''error'',
                          msg_text := Some ''main function not found''\<rparr>]\<rparr>)"
proof -
  have h: "''error'' = ''error'' \<or> \<not> hide_warnings env0" by simp
  note a = spanless_global_message[OF h, where m="''aborting due to previous error''" and tp="Some ''src/main.rs''"
      and cb=True and cd=None and chs="[]" and st=state0 and b=build0]
  note b = spanless_global_message[OF h, where m="''main function not found''" and tp="Some ''src/main.rs''"
      and cb=True and cd=None and chs="[]" and st=state0 and b=build0]
  note c = spanless_global_message[OF h, where m="''main function not found''" and tp=None
      and cb=True and cd=None and chs="[]" and st=state0 and b=build0]
  have 1: "startswith ''aborting due to previous error'' ''aborting due to''"
    "\<not> startswith ''main function not found'' ''aborting due to''"
    "\<not> startswith ''main function not found'' ''cannot continue''"
    by (simp_all add: startswith_def)
  have 2: "add_rust_messages env0 (Rustc (Info ''aborting due to previous error'' ''error'' None [] []))
     (Some ''src/main.rs'') True state0 = Some (state0\<lparr>uuid := 1\<rparr>)"
    using a 1 by (simp add: state0_def)
  have 3: "let b' = collect_rust_messages env0 (Some ''src/main.rs'') True
               (Info ''main function not found'' ''error'' None [] []) None build0
    in path (msg b') = Some ''/proj/src/main.rs'' \<and> span (msg b') = None \<and>
       msg_text (msg b') = Some ''main function not found'' \<and> level (msg b') = Some ''error'' \<and>
       primary (msg b') \<and> delivered b' = []"
    using b 1 by (simp add: Let_def env0_def build0_def Message_def)
  have 4: "add_rust_messages env0 (Rustc (Info ''main function not found'' ''error'' None [] []))
     None True state0 =
     Some (state0\<lparr>uuid := 2,
             cb_log := [(Message 1)\<lparr>level := Some ''error'',
                          msg_text := Some ''main function not found''\<rparr>]\<rparr>)"
    using c 1 by (simp add: state0_def truthy_def numeral_2_eq_2)
  show ?thesis using 1 2 3 4 by (simp add: env0_def)
qed

subsection \<open>Labels of spans\<close>

lemma find_span_r_set_label:
  "find_span_r (set_label x s) ex =
     (case expansion s of None \<Rightarrow> (set_label x s, ex) | Some e \<Rightarrow> find_span_r s ex)"
proof (cases s)
  case (Span f ls le cs ce p t l r e)
  show ?thesis
  proof (cases e)
    case None
    then show ?thesis using Span by simp
  next
    case (Some z)
    then show ?thesis using Span by (cases z) simp
  qed
qed


lemma find_span_r_no_exp: "expansion s = None \<Longrightarrow> find_span_r s ex = (s, ex)"
  by (cases s) simp

lemma set_label_commute [simp]:
  "set_label x (set_label y s) = set_label x s"
  "set_is_primary p (set_label y s) = set_label y (set_is_primary p s)"
  "set_suggested_replacement r (set_label y s) = set_label y (set_suggested_replacement r s)"
  "set_file_name f (set_label y s) = set_label y (set_file_name f s)"
  "set_line_start ls (set_label y s) = set_label y (set_line_start ls s)"
  "src_text (set_label y s) = src_text s"
  by (cases s; simp)+

lemma span_path_region_set_label [simp]:
  "make_span_path ev (set_label x s) = make_span_path ev s"
  "make_span_region (set_label x s) = make_span_region s"
  by (simp_all add: make_span_path_def make_span_region_def split: option.splits)

lemma new_child_set_label [simp]:
  "new_child ev b (set_label x s) t l = new_child ev b s t l"
  by (simp add: new_child_def)

lemma add_additional_set_label [simp]:
  "add_additional ev (set_label x s) t l b = add_additional ev s t l b"
  by (simp add: add_additional_def)

lemma resolve_macro_span_set_label:
  "resolve_macro_span (set_label x s) =
     (set_label x (fst (resolve_macro_span s)), snd (resolve_macro_span s))"
proof (cases "expansion s")
  case None
  then show ?thesis
    by (simp add: resolve_macro_span_def find_span_r_set_label find_span_r_no_exp)
next
  case (Some e)
  then show ?thesis
    by (cases "find_span_r s None") (simp add: resolve_macro_span_def find_span_r_set_label)
qed

lemma macro_step_set_label:
  "macro_step ev tp dia (set_label x s) b =
     (set_label x (fst (macro_step ev tp dia s b)), snd (macro_step ev tp dia s b))"
  by (cases "resolve_macro_span s")
     (auto simp: macro_step_def resolve_macro_span_set_label Let_def split: option.splits)

lemma invoke_step_set_label [simp]:
  "invoke_step ev (set_label x s) b = invoke_step ev s b"
  by (cases "expansion s")
     (auto simp: invoke_step_def find_span_r_set_label split: option.splits)

lemma primary_step_set_label:
  "snd (primary_step ev dia (set_label x s) (pinfo, b)) = snd (primary_step ev dia s (pinfo, b))"
  by (auto simp: primary_step_def set_primary_message_def Let_def split: option.splits)


lemma replacement_step_length:
  "length (children (replacement_step ev sp b)) =
     length (children b) + (if truthy (suggested_replacement sp) then 1 else 0)"
  by (simp add: replacement_step_def truthy_def split: option.splits)

lemma primary_step_frame:
  "msg_id (msg (snd (primary_step ev dia sp (pinfo, b)))) = msg_id (msg b)"
  "prefix (children b) (children (snd (primary_step ev dia sp (pinfo, b))))"
  by (auto simp: primary_step_def split: option.splits)

lemma collect_span_label_split:
  fixes ev tp dia pinfo b s
  defines "sp \<equiv> fst (macro_step ev tp dia s b)"
  defines "b3 \<equiv> snd (primary_step ev dia sp (pinfo, invoke_step ev sp (snd (macro_step ev tp dia s b))))"
  shows "snd (collect_span ev tp dia (pinfo, b) s) = replacement_step ev sp (label_step ev dia sp b3)"
    and "snd (collect_span ev tp dia (pinfo, b) (set_label None s)) =
           replacement_step ev (set_label None sp) b3"
    and "prefix (children b) (children b3)"
    and "msg_id (msg b3) = msg_id (msg b)"
proof -
  show "snd (collect_span ev tp dia (pinfo, b) s) = replacement_step ev sp (label_step ev dia sp b3)"
    unfolding sp_def b3_def
    by (cases "macro_step ev tp dia s b";
        cases "primary_step ev dia (fst (macro_step ev tp dia s b))
                 (pinfo, invoke_step ev (fst (macro_step ev tp dia s b)) (snd (macro_step ev tp dia s b)))")
       (simp add: collect_span_def)
  show "snd (collect_span ev tp dia (pinfo, b) (set_label None s)) =
           replacement_step ev (set_label None sp) b3"
    unfolding sp_def b3_def
    using primary_step_set_label[of ev dia None "fst (macro_step ev tp dia s b)" pinfo
        "invoke_step ev (fst (macro_step ev tp dia s b)) (snd (macro_step ev tp dia s b))"]
    by (cases "primary_step ev dia (set_label None (fst (macro_step ev tp dia s b)))
                 (pinfo, invoke_step ev (fst (macro_step ev tp dia s b)) (snd (macro_step ev tp dia s b)))")
       (simp add: collect_span_def macro_step_set_label label_step_def)
  have "prefix (children b) (children (invoke_step ev sp (snd (macro_step ev tp dia s b))))"
    using macro_step_prefix[of b ev tp dia s] invoke_step_prefix prefix_order.trans by blast
  then show "prefix (children b) (children b3)"
    unfolding b3_def using primary_step_frame(2) prefix_order.trans by blast
  show "msg_id (msg b3) = msg_id (msg b)"
    unfolding b3_def by (simp add: primary_step_frame(1))
qed

text \<open>
  C9, as amended. In one pass of the loop over the spans, the span adds one child more than
  the same span without its label exactly when its label is not \<^verbatim>\<open>None\<close>, and then one of the
  children added in this pass carries the label as its text, at the location of the span
  (as the loop resolved it), with the level of the diagnostic and the primary message as
  its parent. An empty label and a label equal to the message count as labels.
\<close>

theorem span_label_child:
  "(let st = snd (collect_span ev tp dia (pinfo, b) s);
        st0 = snd (collect_span ev tp dia (pinfo, b) (set_label None s));
        sp = fst (macro_step ev tp dia s b)
    in length (children st) = length (children st0) + (case label s of None \<Rightarrow> 0 | Some t \<Rightarrow> 1) \<and>
       (\<forall>t. label s = Some t \<longrightarrow>
          (\<exists>c\<in>set (drop (length (children b)) (children st)).
             msg_text c = Some t \<and> path c = Some (make_span_path ev sp) \<and>
             span c = make_span_region sp \<and> level c = Some (info_level dia) \<and>
             \<not> primary c \<and> parent c = Some (msg_id (msg b)))))"
proof -
  let ?sp = "fst (macro_step ev tp dia s b)"
  let ?b3 = "snd (primary_step ev dia ?sp (pinfo, invoke_step ev ?sp (snd (macro_step ev tp dia s b))))"
  note sp = collect_span_label_split[where ev=ev and tp=tp and dia=dia and pinfo=pinfo and b=b and s=s]
  have lab: "label ?sp = label s" by simp
  have len: "length (children (snd (collect_span ev tp dia (pinfo, b) s))) =
      length (children (snd (collect_span ev tp dia (pinfo, b) (set_label None s)))) +
        (case label s of None \<Rightarrow> 0 | Some t \<Rightarrow> 1)"
    unfolding sp(1,2) using lab
    by (simp add: replacement_step_length label_step_def split: option.splits)
  have ex: "\<exists>c\<in>set (drop (length (children b)) (children (snd (collect_span ev tp dia (pinfo, b) s)))).
             msg_text c = Some t \<and> path c = Some (make_span_path ev ?sp) \<and>
             span c = make_span_region ?sp \<and> level c = Some (info_level dia) \<and>
             \<not> primary c \<and> parent c = Some (msg_id (msg b))" if t: "label s = Some t" for t
  proof -
    let ?c = "new_child ev ?b3 ?sp (Some t) (info_level dia)"
    let ?b4 = "label_step ev dia ?sp ?b3"
    have b4: "children ?b4 = children ?b3 @ [?c]" using t lab by (simp add: label_step_def)
    obtain ys where ys: "children (replacement_step ev ?sp ?b4) = children ?b4 @ ys"
      using replacement_step_prefix[of ?b4 ev ?sp] by (auto simp: prefix_def)
    obtain xs where xs: "children ?b3 = children b @ xs"
      using sp(3) by (auto simp: prefix_def)
    have "children (snd (collect_span ev tp dia (pinfo, b) s)) = children b @ xs @ [?c] @ ys"
      unfolding sp(1) ys b4 xs by simp
    then have "?c \<in> set (drop (length (children b)) (children (snd (collect_span ev tp dia (pinfo, b) s))))"
      by simp
    then show ?thesis
      using sp(4) by (intro bexI[of _ ?c]) simp_all
  qed
  show ?thesis
    unfolding Let_def using len ex by simp
qed

theorem span_label_child_witness:
  "label (Span ''src/main.rs'' (Some 10) 10 5 8 True [] (Some []) None None) = Some [] \<and>
   (let s = Span ''src/main.rs'' (Some 10) 10 5 8 True [] (Some []) None None;
        st = snd (collect_span env0 None ex_empty_label (None, build0) s);
        st0 = snd (collect_span env0 None ex_empty_label (None, build0) (set_label None s))
    in length (children st) = Suc (length (children st0)) \<and>
       (\<exists>c\<in>set (drop (length (children build0)) (children st)).
          msg_text c = Some [] \<and> path c = Some ''/proj/src/main.rs'' \<and>
          span c = Some ((9, 4), (9, 7)) \<and> level c = Some ''error'' \<and> \<not> primary c \<and>
          parent c = Some 0))"
  using span_label_child[where ev=env0 and tp=None and dia=ex_empty_label and pinfo=None and b=build0
      and s="Span ''src/main.rs'' (Some 10) 10 5 8 True [] (Some []) None None"]
  by (simp add: Let_def macro_step_def make_span_path_def make_span_region_def env0_def
      ex_empty_label_def build0_def Message_def)

text \<open>
  C9 as stated fails: a span with the empty label, and a span whose label is the message of
  the diagnostic, each give a child with that label as its text.
\<close>

theorem span_label_child_counterexample:
  "map label (info_spans ex_empty_label) = [Some []] \<and>
   map msg_text (children (collect_rust_messages env0 None False ex_empty_label None build0)) =
     [Some []] \<and>
   info_message ex_same_label = ''mismatched types'' \<and>
   map label (info_spans ex_same_label) = [Some ''mismatched types''] \<and>
   map msg_text (children (collect_rust_messages env0 None False ex_same_label None build0)) =
     [Some ''mismatched types'']"
  by (simp add: ex_empty_label_def ex_same_label_def macro_step_def make_span_path_def
      make_span_region_def env0_def build0_def collect_span_def invoke_step_def primary_step_def
      label_step_def replacement_step_def set_primary_message_def add_additional_def new_child_def
      Message_def truthy_def collect_rust_messages.simps)

subsection \<open>Links to far-away children\<close>

lemma make_file_path_Some: "path m \<noteq> None \<Longrightarrow> \<exists>url. make_file_path m = Some url"
  by (auto simp: make_file_path_def split: option.splits)

lemma cross_link_loop_spec:
  assumes "\<forall>c\<in>set rest. path c \<noteq> None"
  shows "\<exists>cs ls. cross_link_loop ev pm bl rest K = Some (cs, ls) \<and> length cs = length rest \<and>
     (\<forall>i<length rest.
        cs ! i = (if far_away pm (rest ! i) \<and>
                     link_key (rest ! i) \<notin> K \<union> link_key ` set (filter (far_away pm) (take i rest))
                  then (rest ! i)\<lparr>back_link := Some bl\<rparr> else rest ! i)) \<and>
     length ls = card (link_key ` set (filter (far_away pm) rest) - K)"
  using assms
proof (induction rest arbitrary: K)
  case Nil
  then show ?case by simp
next
  case (Cons child rest)
  let ?F = "\<lambda>xs. link_key ` set (filter (far_away pm) xs)"
  have pc: "path child \<noteq> None" and pr: "\<forall>c\<in>set rest. path c \<noteq> None"
    using Cons.prems by simp_all
  show ?case
  proof (cases "far_away pm child \<and> link_key child \<notin> K")
    case False
    obtain cs ls where IH: "cross_link_loop ev pm bl rest K = Some (cs, ls)"
      "length cs = length rest"
      "\<forall>i<length rest. cs ! i = (if far_away pm (rest ! i) \<and>
                     link_key (rest ! i) \<notin> K \<union> ?F (take i rest)
                  then (rest ! i)\<lparr>back_link := Some bl\<rparr> else rest ! i)"
      "length ls = card (?F rest - K)"
      using Cons.IH[OF pr, of K] by blast
    have e: "cross_link_loop ev pm bl (child # rest) K = Some (child # cs, ls)"
      using False IH(1) by (auto simp: Let_def)
    have keys: "?F (child # rest) - K = ?F rest - K" using False by auto
    have idx: "(child # cs) ! i = (if far_away pm ((child # rest) ! i) \<and>
                     link_key ((child # rest) ! i) \<notin> K \<union> ?F (take i (child # rest))
                  then ((child # rest) ! i)\<lparr>back_link := Some bl\<rparr> else (child # rest) ! i)"
      if "i < length (child # rest)" for i
    proof (cases i)
      case 0
      then show ?thesis using False by auto
    next
      case (Suc j)
      have "K \<union> ?F (take i (child # rest)) = K \<union> ?F (take j rest)"
        using False Suc by auto
      then show ?thesis using IH(3) that Suc by simp
    qed
    show ?thesis using e IH(2,4) keys idx by (intro exI[of _ "child # cs"] exI[of _ ls]) simp
  next
    case True
    let ?K' = "insert (link_key child) K"
    obtain cs ls where IH: "cross_link_loop ev pm bl rest ?K' = Some (cs, ls)"
      "length cs = length rest"
      "\<forall>i<length rest. cs ! i = (if far_away pm (rest ! i) \<and>
                     link_key (rest ! i) \<notin> ?K' \<union> ?F (take i rest)
                  then (rest ! i)\<lparr>back_link := Some bl\<rparr> else rest ! i)"
      "length ls = card (?F rest - ?K')"
      using Cons.IH[OF pr, of ?K'] by blast
    obtain url where url: "make_file_path child = Some url"
      using make_file_path_Some[OF pc] by blast
    obtain p where p: "path child = Some p" using pc by auto
    have "\<exists>fn lt. cross_link_loop ev pm bl (child # rest) K =
        Some (child\<lparr>back_link := Some bl\<rparr> # cs, link_html ev url fn lt # ls)"
      using True IH(1) url p by (cases "path child = path pm") (simp_all add: Let_def, blast+)
    then obtain fn lt where e: "cross_link_loop ev pm bl (child # rest) K =
        Some (child\<lparr>back_link := Some bl\<rparr> # cs, link_html ev url fn lt # ls)"
      by blast
    have fin: "finite (?F rest - ?K')" by simp
    have "?F (child # rest) - K = insert (link_key child) (?F rest - ?K')"
      using True by auto
    moreover have "link_key child \<notin> ?F rest - ?K'" by simp
    ultimately have card: "card (?F (child # rest) - K) = Suc (card (?F rest - ?K'))"
      using fin by simp
    have idx: "(child\<lparr>back_link := Some bl\<rparr> # cs) ! i = (if far_away pm ((child # rest) ! i) \<and>
                     link_key ((child # rest) ! i) \<notin> K \<union> ?F (take i (child # rest))
                  then ((child # rest) ! i)\<lparr>back_link := Some bl\<rparr> else (child # rest) ! i)"
      if "i < length (child # rest)" for i
    proof (cases i)
      case 0
      then show ?thesis using True by auto
    next
      case (Suc j)
      have "K \<union> ?F (take i (child # rest)) = ?K' \<union> ?F (take j rest)"
        using True Suc by auto
      then show ?thesis using IH(3) that Suc by simp
    qed
    show ?thesis using e IH(2,4) card idx
      by (intro exI[of _ "child\<lparr>back_link := Some bl\<rparr> # cs"] exI[of _ "link_html ev url fn lt # ls"])
         simp
  qed
qed


lemma add_links_spec:
  "\<exists>ks. children (add_links b ls) = children b @ ks \<and> length ks = length ls \<and>
        msg (add_links b ls) = msg b \<and> delivered (add_links b ls) = delivered b \<and>
        (\<forall>k\<in>set ks. path k = path (msg b) \<and> span k = span (msg b) \<and> level k = level (msg b) \<and>
           msg_text k = None \<and> \<not> primary k \<and> parent k = Some (msg_id (msg b)) \<and>
           back_link k = None)"
proof (induction ls arbitrary: b)
  case Nil
  then show ?case by simp
next
  case (Cons l ls)
  let ?b1 = "b\<lparr>children := children b @ [new_link b l], next_id := Suc (next_id b)\<rparr>"
  obtain ks where ks: "children (add_links ?b1 ls) = children ?b1 @ ks" "length ks = length ls"
    "msg (add_links ?b1 ls) = msg ?b1" "delivered (add_links ?b1 ls) = delivered ?b1"
    "\<forall>k\<in>set ks. path k = path (msg ?b1) \<and> span k = span (msg ?b1) \<and> level k = level (msg ?b1) \<and>
           msg_text k = None \<and> \<not> primary k \<and> parent k = Some (msg_id (msg ?b1)) \<and>
           back_link k = None"
    using Cons.IH[of ?b1] by blast
  show ?case
    using ks by (intro exI[of _ "new_link b l # ks"]) (simp add: new_link_def Message_def)
qed

text \<open>
  C5, as amended. For a primary message with a path whose children all have a path,
  \<^verbatim>\<open>_create_cross_links\<close> returns; it keeps the children in place, followed by the links. A
  child gets its \<^verbatim>\<open>back_link\<close> exactly when it is far away from the primary message (another
  file, or more than 5 lines away) and no far-away child before it has the same path and
  line; every other child (close to the primary message, or at a place seen before) is
  unchanged. There is one link for each distinct pair of path and line among the far-away
  children, and each link has the path, region and level of the primary message, no text,
  and the primary message as its parent.
\<close>

theorem cross_links_of_far_children:
  assumes "path (msg b) \<noteq> None" and "\<forall>c\<in>set (children b). path c \<noteq> None"
  shows "\<exists>b' cs links url.
     create_cross_links ev b = Some b' \<and> make_file_path (msg b) = Some url \<and>
     msg b' = msg b \<and> children b' = cs @ links \<and> length cs = length (children b) \<and>
     (\<forall>i<length (children b).
        cs ! i =
          (if far_away (msg b) (children b ! i) \<and>
              link_key (children b ! i) \<notin>
                link_key ` set (filter (far_away (msg b)) (take i (children b)))
           then (children b ! i)\<lparr>back_link := Some (back_link_html url)\<rparr>
           else children b ! i)) \<and>
     length links = card (link_key ` set (filter (far_away (msg b)) (children b))) \<and>
     (\<forall>l\<in>set links. path l = path (msg b) \<and> span l = span (msg b) \<and> level l = level (msg b) \<and>
        msg_text l = None \<and> \<not> primary l \<and> parent l = Some (msg_id (msg b)))"
proof -
  obtain url where url: "make_file_path (msg b) = Some url"
    using make_file_path_Some[OF assms(1)] by blast
  obtain cs ls where loop:
    "cross_link_loop ev (msg b) (back_link_html url) (children b) {} = Some (cs, ls)"
    "length cs = length (children b)"
    "\<forall>i<length (children b).
        cs ! i = (if far_away (msg b) (children b ! i) \<and>
                     link_key (children b ! i) \<notin>
                       {} \<union> link_key ` set (filter (far_away (msg b)) (take i (children b)))
                  then (children b ! i)\<lparr>back_link := Some (back_link_html url)\<rparr>
                  else children b ! i)"
    "length ls = card (link_key ` set (filter (far_away (msg b)) (children b)) - {})"
    using cross_link_loop_spec[OF assms(2), of ev "msg b" "back_link_html url" "{}"] by blast
  let ?b1 = "b\<lparr>children := cs\<rparr>"
  obtain ks where ks: "children (add_links ?b1 ls) = children ?b1 @ ks" "length ks = length ls"
    "msg (add_links ?b1 ls) = msg ?b1"
    "\<forall>k\<in>set ks. path k = path (msg ?b1) \<and> span k = span (msg ?b1) \<and> level k = level (msg ?b1) \<and>
           msg_text k = None \<and> \<not> primary k \<and> parent k = Some (msg_id (msg ?b1)) \<and>
           back_link k = None"
    using add_links_spec[of ?b1 ls] by blast
  have e: "create_cross_links ev b = Some (add_links ?b1 ls)"
    by (simp add: create_cross_links_def url loop(1))
  show ?thesis
    using e url ks loop(2,3,4)
    by (intro exI[of _ "add_links ?b1 ls"] exI[of _ cs] exI[of _ ks] exI[of _ url]) simp
qed

lemmas collect_eval = macro_step_def make_span_path_def make_span_region_def env0_def build0_def
  collect_span_def invoke_step_def primary_step_def label_step_def replacement_step_def
  set_primary_message_def add_additional_def new_child_def Message_def truthy_def
  collect_rust_messages.simps no_spans_step_def startswith_def

lemma ex_lines_build:
  "collect_rust_messages env0 None False ex_lines None build0 =
    \<lparr>msg = (Message 0)\<lparr>msg_text := Some ''mismatched types'', level := Some ''error'',
             span := Some ((9, 4), (9, 7)), path := Some ''/proj/src/main.rs''\<rparr>,
     children =
       [(Message 1)\<lparr>msg_text := Some ''six lines below'', level := Some ''error'',
           span := Some ((15, 0), (15, 3)), path := Some ''/proj/src/main.rs'',
           primary := False, parent := Some 0\<rparr>,
        (Message 2)\<lparr>msg_text := Some ''three lines below'', level := Some ''error'',
           span := Some ((12, 0), (12, 3)), path := Some ''/proj/src/main.rs'',
           primary := False, parent := Some 0\<rparr>],
     next_id = 3, delivered = []\<rparr>"
  by (simp add: ex_lines_def collect_eval)

theorem cross_links_of_far_children_witness:
  "(let b = collect_rust_messages env0 None False ex_lines None build0
    in path (msg b) \<noteq> None \<and> list_all (\<lambda>c. path c \<noteq> None) (children b) \<and>
       map lineno (msg b # children b) = [9, 15, 12] \<and>
       (\<exists>b' cs links url.
          create_cross_links env0 b = Some b' \<and> make_file_path (msg b) = Some url \<and>
          children b' = cs @ links \<and> length cs = 2 \<and>
          back_link (cs ! 0) = Some (back_link_html url) \<and> back_link (cs ! 1) = None \<and>
          length links = 1))"
proof -
  let ?b = "collect_rust_messages env0 None False ex_lines None build0"
  have h1: "path (msg ?b) \<noteq> None" by (simp add: ex_lines_build)
  have h2: "\<forall>c\<in>set (children ?b). path c \<noteq> None" by (simp add: ex_lines_build)
  have h3: "map lineno (msg ?b # children ?b) = [9, 15, 12]"
    by (simp add: ex_lines_build lineno_def Message_def)
  obtain b' cs links url where r:
     "create_cross_links env0 ?b = Some b'" "make_file_path (msg ?b) = Some url"
     "children b' = cs @ links" "length cs = length (children ?b)"
     "\<forall>i<length (children ?b).
        cs ! i =
          (if far_away (msg ?b) (children ?b ! i) \<and>
              link_key (children ?b ! i) \<notin>
                link_key ` set (filter (far_away (msg ?b)) (take i (children ?b)))
           then (children ?b ! i)\<lparr>back_link := Some (back_link_html url)\<rparr>
           else children ?b ! i)"
     "length links = card (link_key ` set (filter (far_away (msg ?b)) (children ?b)))"
    using cross_links_of_far_children[OF h1 h2, of env0] by blast
  have c0: "back_link (cs ! 0) = Some (back_link_html url)"
    using r(5)[rule_format, of 0]
    by (simp add: ex_lines_build far_away_def lineno_def Message_def)
  have c1: "back_link (cs ! 1) = None"
    using r(5)[rule_format, of 1]
    by (simp add: ex_lines_build far_away_def lineno_def Message_def)
  have n: "length links = 1"
    using r(6) by (simp add: ex_lines_build far_away_def lineno_def Message_def)
  have l: "length cs = 2" using r(4) by (simp add: ex_lines_build)
  show ?thesis
    unfolding Let_def using h1 h2 h3 r(1,2,3) c0 c1 n l
    by (simp add: list_all_iff) blast
qed

text \<open>
  C5 as stated fails: of two children at the same line of another file, both far away from
  the primary message, the second one gets no \<^verbatim>\<open>back_link\<close>.
\<close>

theorem cross_links_of_far_children_counterexample:
  "map_option (\<lambda>b'. map (\<lambda>c. (far_away (msg b') c, back_link c)) (take 2 (children b')))
     (create_cross_links env0 (collect_rust_messages env0 None False ex_same_place None build0)) =
   Some [(True, Some (back_link_html ''file:////proj/src/main.rs:1:1'')), (True, None)]"
  by (simp add: ex_same_place_def collect_eval create_cross_links_def make_file_path_def
      far_away_def link_key_def lineno_def new_link_def str_int_def str_nat.simps Let_def)

end
